theory Spec2Isabelle
  imports Main "HOL-Library.Sublist"
begin

section \<open>Python strings: substring test and \<open>str.split\<close>\<close>

text \<open>
  The URL parser of \<^verbatim>\<open>GDrive_batch.py\<close> uses three string operations of Python:
  the substring test \<^verbatim>\<open>sub in s\<close>, \<^verbatim>\<open>s.split(sep)\<close> and indexing of the list that
  \<^verbatim>\<open>split\<close> returns. Strings are lists of characters. Both separators of the source are
  ASCII, so splitting a UTF-8 encoded string at them cuts where Python cuts the string of
  code points.
\<close>

text \<open>
  \<^verbatim>\<open>sub in s\<close>: \<open>sub\<close> starts at some position of \<open>s\<close>, that is, it is a prefix
  of what begins there.
\<close>

fun contains :: "string \<Rightarrow> string \<Rightarrow> bool" where
  "contains sub [] = (sub = [])"
| "contains sub (c # cs) = (prefix sub (c # cs) \<or> contains sub cs)"

text \<open>
  \<^verbatim>\<open>s.split(sep)\<close> scans from the left; at the leftmost occurrence of \<open>sep\<close> it closes
  the current piece and goes on behind the occurrence. \<open>cur\<close> is the piece collected so far.
  Python raises \<^verbatim>\<open>ValueError\<close> for an empty separator, which \<open>py_split\<close> returns as an
  error value.
\<close>

function split_from :: "string \<Rightarrow> string \<Rightarrow> string \<Rightarrow> string list" where
  "split_from sep cur [] = [cur]"
| "split_from sep cur (c # cs) =
     (if sep \<noteq> [] \<and> prefix sep (c # cs)
      then cur # split_from sep [] (drop (length sep) (c # cs))
      else split_from sep (cur @ [c]) cs)"
  by pat_completeness auto
termination
  by (relation "measure (\<lambda>(sep, cur, s). length s)") (auto simp: neq_Nil_conv)

datatype py_error = IndexError | TypeError | AttributeError | ValueError

definition py_split :: "string \<Rightarrow> string \<Rightarrow> py_error + string list" where
  "py_split sep s = (if sep = [] then Inl ValueError else Inr (split_from sep [] s))"

text \<open>\<^verbatim>\<open>xs[i]\<close> for an index \<open>i \<ge> 0\<close>: \<^verbatim>\<open>IndexError\<close> when out of range.\<close>

definition py_index :: "'a list \<Rightarrow> nat \<Rightarrow> py_error + 'a" where
  "py_index xs i = (if i < length xs then Inr (xs ! i) else Inl IndexError)"

text \<open>Sequencing of steps that may raise: the first exception ends the sequence.\<close>

definition and_then :: "'e + 'a \<Rightarrow> ('a \<Rightarrow> 'e + 'b) \<Rightarrow> 'e + 'b" where
  "and_then r f = (case r of Inl e \<Rightarrow> Inl e | Inr v \<Rightarrow> f v)"

section \<open>Python values as arguments of \<open>get_shared_folder_id\<close>\<close>

text \<open>
  Python is dynamically typed, and \<^verbatim>\<open>get_shared_folder_id\<close> guards against arguments that
  are not strings (\<^verbatim>\<open>if not shared_url\<close>, \<^verbatim>\<open>except TypeError\<close>). The argument is
  therefore a Python value: \<^verbatim>\<open>None\<close>, a boolean, an integer, a string or a list.
\<close>

datatype pyval = PyNone | PyBool bool | PyInt int | PyStr string | PyList "pyval list"

text \<open>Truth value of an object, as \<^verbatim>\<open>not x\<close> and \<^verbatim>\<open>if x\<close> test it.\<close>

fun truthy :: "pyval \<Rightarrow> bool" where
  "truthy PyNone = False"
| "truthy (PyBool b) = b"
| "truthy (PyInt n) = (n \<noteq> 0)"
| "truthy (PyStr s) = (s \<noteq> [])"
| "truthy (PyList xs) = (xs \<noteq> [])"

text \<open>
  \<^verbatim>\<open>sub in x\<close> for a string \<open>sub\<close>: the substring test on a string, membership (by
  \<^verbatim>\<open>==\<close>) in a list, and \<^verbatim>\<open>TypeError\<close> ("argument of type ... is not iterable") on
  \<^verbatim>\<open>None\<close>, booleans and integers.
\<close>

fun py_in :: "string \<Rightarrow> pyval \<Rightarrow> py_error + bool" where
  "py_in sub (PyStr s) = Inr (contains sub s)"
| "py_in sub (PyList xs) = Inr (PyStr sub \<in> set xs)"
| "py_in sub x = Inl TypeError"

text \<open>\<^verbatim>\<open>x.split(sep)\<close>: only strings have the method.\<close>

fun split_method :: "pyval \<Rightarrow> string \<Rightarrow> py_error + string list" where
  "split_method (PyStr s) sep = py_split sep s"
| "split_method x sep = Inl AttributeError"

section \<open>\<open>get_shared_folder_id\<close>\<close>

text \<open>
  \<^verbatim>\<open>
  def get_shared_folder_id(shared_url):
      if not shared_url:
          return None
      try:
          if "folders/" in shared_url:
              folder_id = shared_url.split("folders/")[1].split("?")[0]
          elif "folderview?id=" in shared_url:
              folder_id = shared_url.split("folderview?id=")[1].split("&")[0]
          else:
              return None
          return folder_id
      except IndexError:
          return None
      except TypeError:
          return None
  \<close>
  The result is \<open>Inr None\<close> for \<^verbatim>\<open>return None\<close>, \<open>Inr (Some folder_id)\<close> for
  \<^verbatim>\<open>return folder_id\<close> and \<open>Inl e\<close> for an exception that leaves the function.
\<close>

definition extract_id :: "pyval \<Rightarrow> string \<Rightarrow> string \<Rightarrow> py_error + string option" where
  "extract_id shared_url marker stop =
     and_then (split_method shared_url marker) (\<lambda>parts.
     and_then (py_index parts 1) (\<lambda>rest.
     and_then (py_split stop rest) (\<lambda>pieces.
     and_then (py_index pieces 0) (\<lambda>folder_id. Inr (Some folder_id)))))"

definition try_body :: "pyval \<Rightarrow> py_error + string option" where
  "try_body shared_url =
     and_then (py_in ''folders/'' shared_url) (\<lambda>found.
       if found then extract_id shared_url ''folders/'' ''?''
       else and_then (py_in ''folderview?id='' shared_url) (\<lambda>found_old.
         if found_old then extract_id shared_url ''folderview?id='' ''&''
         else Inr None))"

definition get_shared_folder_id :: "pyval \<Rightarrow> py_error + string option" where
  "get_shared_folder_id shared_url =
     (if \<not> truthy shared_url then Inr None
      else case try_body shared_url of
             Inl IndexError \<Rightarrow> Inr None
           | Inl TypeError \<Rightarrow> Inr None
           | r \<Rightarrow> r)"

subsection \<open>The identifier as a substring of the URL\<close>

text \<open>
  Two functions that describe a substring directly, without \<open>split\<close>:
  \<open>text_after m s\<close> is what follows the first occurrence of \<open>m\<close> in \<open>s\<close>, and
  \<open>text_up_to stops s\<close> is \<open>s\<close> up to the first position at which one of the strings
  in \<open>stops\<close> begins (all of \<open>s\<close> if none does).
\<close>

fun text_after :: "string \<Rightarrow> string \<Rightarrow> string" where
  "text_after m [] = []"
| "text_after m (c # cs) =
     (if prefix m (c # cs) then drop (length m) (c # cs) else text_after m cs)"

fun text_up_to :: "string list \<Rightarrow> string \<Rightarrow> string" where
  "text_up_to stops [] = []"
| "text_up_to stops (c # cs) =
     (if \<exists>st \<in> set stops. prefix st (c # cs) then [] else c # text_up_to stops cs)"

definition at_stop :: "string list \<Rightarrow> string \<Rightarrow> bool" where
  "at_stop stops q \<longleftrightarrow> q = [] \<or> (\<exists>st \<in> set stops. prefix st q)"

text \<open>
  The identifier as the specification words it: the substring between the marker and the
  next \<^verbatim>\<open>?\<close> or \<^verbatim>\<open>&\<close>, or the end of the string.
\<close>

definition claimed_folder_id :: "string \<Rightarrow> string option" where
  "claimed_folder_id url =
     (if contains ''folders/'' url
      then Some (text_up_to [''?'', ''&''] (text_after ''folders/'' url))
      else if contains ''folderview?id='' url
      then Some (text_up_to [''?'', ''&''] (text_after ''folderview?id='' url))
      else None)"

text \<open>
  A Python value holds a marker if the test \<^verbatim>\<open>marker in x\<close> succeeds: a string that
  contains it, or a list with the marker as an element.
\<close>

fun holds_marker :: "string \<Rightarrow> pyval \<Rightarrow> bool" where
  "holds_marker m (PyStr s) = contains m s"
| "holds_marker m (PyList xs) = (PyStr m \<in> set xs)"
| "holds_marker m x = False"

section \<open>The remote service, the local machine and the effects of a run\<close>

text \<open>
  The rest of the program talks to the Drive API through a \<^verbatim>\<open>service\<close> object and to
  the local machine through \<^verbatim>\<open>os\<close>, \<^verbatim>\<open>io\<close> and \<^verbatim>\<open>logging\<close>. Both are outside the
  source; the model takes their answers from two records of functions, \<open>service\<close> and
  \<open>platform\<close>, and threads the local state through every function as a \<open>world\<close>: the
  directories and files that exist, and the trace of the calls and log records made so far.

  A listing entry is the dictionary with the keys \<^verbatim>\<open>id\<close>, \<^verbatim>\<open>name\<close> and
  \<^verbatim>\<open>mimeType\<close> that the listing request asks for. A listing response is a dictionary
  in which the keys \<^verbatim>\<open>files\<close> (here \<open>page_files\<close>) and \<^verbatim>\<open>nextPageToken\<close> may be
  missing.
\<close>

record entry =
  entry_id :: string
  entry_name :: string
  entry_mimeType :: string

record response =
  page_files :: "entry list option"
  nextPageToken :: "string option"

text \<open>
  A request fails by raising an exception. The client library raises \<^verbatim>\<open>HttpError\<close> for
  an error response of the API; whatever else goes wrong while a request is made (a
  broken connection, a timeout, a failed refresh of the credentials) is an exception of
  another class. \<^verbatim>\<open>list_files_in_folder\<close> has a handler for \<^verbatim>\<open>HttpError\<close> only;
  \<^verbatim>\<open>download_file\<close> has a second one, for every other \<^verbatim>\<open>Exception\<close>. Both kinds of
  exception carry the text that a log record shows for them.
\<close>

datatype exn = HttpError string | OtherException string

text \<open>
  What a chunked download delivers: the chunks received, and the exception that ended
  it early, if any.
\<close>

record media =
  chunks :: "string list"
  failure :: "exn option"

text \<open>
  \<open>files_list q pageToken\<close> answers \<^verbatim>\<open>service.files().list(q=..., pageToken=...).execute()\<close>,
  \<open>files_get fileId\<close> gives the \<^verbatim>\<open>mimeType\<close> of
  \<^verbatim>\<open>service.files().get(fileId=...).execute()\<close>, and \<open>files_get_media fileId\<close> is the
  run of \<^verbatim>\<open>MediaIoBaseDownload.next_chunk\<close> over \<^verbatim>\<open>get_media(fileId=...)\<close>.
\<close>

record service =
  files_list :: "string \<Rightarrow> string option \<Rightarrow> exn + response"
  files_get :: "string \<Rightarrow> exn + string"
  files_get_media :: "string \<Rightarrow> media"

datatype level = INFO | WARNING | ERROR

datatype event =
    Log level string
  | ListCall string "string option"
  | GetCall string
  | MediaCall string
  | Makedirs string
  | OpenWrite string

record world =
  fs_dirs :: "string set"
  fs_files :: "string \<rightharpoonup> string"
  trace :: "event list"

text \<open>Credentials, as far as \<^verbatim>\<open>get_credentials_interactive\<close> looks at them.\<close>

record creds =
  valid :: bool
  expired :: bool
  refresh_token :: "string option"
  to_json :: string

text \<open>
  The local machine and the client libraries. \<open>makedirs_error\<close> and \<open>open_error\<close> say
  whether \<^verbatim>\<open>os.makedirs\<close> and opening a file for writing fail in the given state, with
  the message of the \<^verbatim>\<open>OSError\<close>. The two loaders parse the text of a credential file,
  \<open>refresh\<close> is \<^verbatim>\<open>creds.refresh(Request())\<close> and \<open>build\<close> is
  \<^verbatim>\<open>build('drive', 'v3', credentials=...)\<close>; each may raise, with a message.
\<close>

record platform =
  makedirs_error :: "world \<Rightarrow> string \<Rightarrow> string option"
  open_error :: "world \<Rightarrow> string \<Rightarrow> string option"
  from_service_account_file :: "string \<Rightarrow> string + creds"
  from_authorized_user_file :: "string \<Rightarrow> string + creds"
  refresh :: "creds \<Rightarrow> string + creds"
  build :: "creds \<Rightarrow> string + service"

definition emit :: "event \<Rightarrow> world \<Rightarrow> world" where
  "emit e w = w\<lparr>trace := trace w @ [e]\<rparr>"

definition logging :: "level \<Rightarrow> string \<Rightarrow> world \<Rightarrow> world" where
  "logging l msg w = emit (Log l msg) w"

subsection \<open>Paths and directories\<close>

text \<open>\<^verbatim>\<open>os.path.exists\<close>: the path is a directory or a file.\<close>

definition path_exists :: "world \<Rightarrow> string \<Rightarrow> bool" where
  "path_exists w p \<longleftrightarrow> p \<in> fs_dirs w \<or> fs_files w p \<noteq> None"

text \<open>
  \<^verbatim>\<open>os.path.join(a, b)\<close> of \<^verbatim>\<open>posixpath\<close>: an absolute \<open>b\<close> replaces \<open>a\<close>; otherwise
  \<open>b\<close> is appended, behind a separator unless \<open>a\<close> is empty or ends with one.
\<close>

definition path_join :: "string \<Rightarrow> string \<Rightarrow> string" where
  "path_join a b =
     (if prefix ''/'' b then b
      else if a = [] \<or> last a = CHR ''/'' then a @ b
      else a @ ''/'' @ b)"

text \<open>
  \<^verbatim>\<open>os.makedirs\<close> creates the leaf and the intermediate directories: the prefixes of the
  path that end before a separator. \<open>pre\<close> is the part of the path already read.
\<close>

fun intermediate_dirs :: "string \<Rightarrow> string \<Rightarrow> string list" where
  "intermediate_dirs pre [] = []"
| "intermediate_dirs pre (c # cs) =
     (if c = CHR ''/'' \<and> pre \<noteq> [] \<and> last pre \<noteq> CHR ''/'' then [pre] else [])
     @ intermediate_dirs (pre @ [c]) cs"

text \<open>
  The block of \<^verbatim>\<open>process_files\<close> that creates a missing directory:
  \<^verbatim>\<open>
      try:
          os.makedirs(current_download_path)
          logging.info(f"Created directory: {current_download_path}")
      except OSError as e:
          logging.error(f"Failed to create directory {current_download_path}: {e}")
          continue
  \<close>
  The boolean is \<open>False\<close> for \<^verbatim>\<open>continue\<close>.
\<close>

definition create_directory :: "platform \<Rightarrow> string \<Rightarrow> world \<Rightarrow> bool \<times> world" where
  "create_directory pf current_download_path w =
     (let w1 = emit (Makedirs current_download_path) w in
      case makedirs_error pf w current_download_path of
        None \<Rightarrow>
          (True,
           logging INFO (''Created directory: '' @ current_download_path)
             (w1\<lparr>fs_dirs := fs_dirs w1
                    \<union> set (intermediate_dirs [] current_download_path)
                    \<union> {current_download_path}\<rparr>))
      | Some e \<Rightarrow>
          (False,
           logging ERROR
             (''Failed to create directory '' @ current_download_path @ '': '' @ e) w1))"

section \<open>\<open>list_files_in_folder\<close>\<close>

text \<open>
  \<^verbatim>\<open>
  def list_files_in_folder(service, folder_id):
      results = []
      try:
          page_token = None
          while True:
              results_page = service.files().list(
                  q=f"'{folder_id}' in parents and trashed=false",
                  fields="nextPageToken, files(id, name, mimeType)",
                  pageToken=page_token,
                  supportsAllDrives=True,
                  includeItemsFromAllDrives=True).execute()
              if not results_page:
                  break
              items = results_page.get('files', [])
              if not items:
                  break
              results.extend(items)
              page_token = results_page.get('nextPageToken')
              if not page_token:
                  break
          return results
      except HttpError as error:
          logging.error(f"An error occurred: {error}")
          return []  # Return empty list on error to avoid crashing
  \<close>
  \<open>list_pages\<close> is the body of the \<^verbatim>\<open>try\<close>: one iteration of the loop for each unfolding,
  with the loop variables \<open>page_token\<close> and \<open>results\<close>, and with \<open>calls\<close>, the requests
  made so far. Nothing bounds the number of pages, so the loop is a partial function:
  \<open>None\<close> is a loop that never ends.

  \<open>list_files_in_folder\<close> adds the handler. Its result is \<open>Inr results\<close> for a returned
  list and \<open>Inl e\<close> for an exception that leaves the function: \<^verbatim>\<open>HttpError\<close> is caught,
  an exception of any other class is not.
\<close>

definition query :: "string \<Rightarrow> string" where
  "query folder_id = [CHR 0x27] @ folder_id @ [CHR 0x27] @ '' in parents and trashed=false''"

partial_function (option) list_pages ::
  "service \<Rightarrow> string \<Rightarrow> string option \<Rightarrow> entry list \<Rightarrow> event list
     \<Rightarrow> ((exn + entry list) \<times> event list) option" where
  "list_pages service folder_id page_token results calls =
     (let calls' = calls @ [ListCall (query folder_id) page_token] in
      case files_list service (query folder_id) page_token of
        Inl error \<Rightarrow> Some (Inl error, calls')
      | Inr results_page \<Rightarrow>
          if page_files results_page = None \<and> nextPageToken results_page = None
          then Some (Inr results, calls')
          else
            let items = (case page_files results_page of None \<Rightarrow> [] | Some xs \<Rightarrow> xs) in
            if items = [] then Some (Inr results, calls')
            else
              let results' = results @ items;
                  page_token' = nextPageToken results_page
              in
              if page_token' = None \<or> page_token' = Some [] then Some (Inr results', calls')
              else list_pages service folder_id page_token' results' calls')"

declare list_pages.simps [code]

definition list_files_in_folder ::
  "service \<Rightarrow> string \<Rightarrow> world \<Rightarrow> ((exn + entry list) \<times> world) option" where
  "list_files_in_folder service folder_id w =
     (case list_pages service folder_id None [] [] of
        None \<Rightarrow> None
      | Some (Inr results, calls) \<Rightarrow> Some (Inr results, w\<lparr>trace := trace w @ calls\<rparr>)
      | Some (Inl (HttpError error), calls) \<Rightarrow>
          Some (Inr [], logging ERROR (''An error occurred: '' @ error)
                          (w\<lparr>trace := trace w @ calls\<rparr>))
      | Some (Inl (OtherException msg), calls) \<Rightarrow>
          Some (Inl (OtherException msg), w\<lparr>trace := trace w @ calls\<rparr>))"

section \<open>\<open>download_file\<close>\<close>

text \<open>
  \<^verbatim>\<open>
  def download_file(service, file_id, file_name, download_path):
      try:
          file_metadata = service.files().get(fileId=file_id, supportsAllDrives=True).execute()
          if file_metadata['mimeType'] == 'application/vnd.google-apps.folder':
              logging.info(f"Skipping download of folder: {file_name} (ID: {file_id})")
              return
          file_path = os.path.join(download_path, file_name)
          if os.path.exists(file_path):
              logging.warning(f"File already exists: {file_path}. Overwriting.")
          request = service.files().get_media(fileId=file_id, supportsAllDrives=True)
          fh = io.FileIO(file_path, 'wb')
          downloader = MediaIoBaseDownload(fh, request)
          done = False
          while not done:
              status, done = downloader.next_chunk()
          logging.info(f"Downloaded: {file_name} to {file_path}")
      except HttpError as error:
          logging.error(f"An error occurred during download of {file_name}: {error}")
      except Exception as e:
          logging.error(f"An unexpected error occurred during download of {file_name}: {e}")
  \<close>
  Every exception is handled, so the function returns the next state and nothing else.
  A download that fails on the way leaves the file with the chunks written so far.
\<close>

definition folder_mime :: string where
  "folder_mime = ''application/vnd.google-apps.folder''"

definition download_failed :: "string \<Rightarrow> exn \<Rightarrow> world \<Rightarrow> world" where
  "download_failed file_name e w =
     (case e of
        HttpError error \<Rightarrow>
          logging ERROR (''An error occurred during download of '' @ file_name @ '': '' @ error) w
      | OtherException msg \<Rightarrow>
          logging ERROR
            (''An unexpected error occurred during download of '' @ file_name @ '': '' @ msg) w)"

definition download_file ::
  "platform \<Rightarrow> service \<Rightarrow> string \<Rightarrow> string \<Rightarrow> string \<Rightarrow> world \<Rightarrow> world" where
  "download_file pf service file_id file_name download_path w =
     (let w1 = emit (GetCall file_id) w in
      case files_get service file_id of
        Inl e \<Rightarrow> download_failed file_name e w1
      | Inr metadata_mime \<Rightarrow>
          if metadata_mime = folder_mime
          then logging INFO
                 (''Skipping download of folder: '' @ file_name @ '' (ID: '' @ file_id @ '')'') w1
          else
            let file_path = path_join download_path file_name;
                w2 = (if path_exists w1 file_path
                      then logging WARNING
                             (''File already exists: '' @ file_path @ ''. Overwriting.'') w1
                      else w1);
                w3 = emit (OpenWrite file_path) w2
            in
            case open_error pf w2 file_path of
              Some msg \<Rightarrow> download_failed file_name (OtherException msg) w3
            | None \<Rightarrow>
                let downloaded = files_get_media service file_id;
                    w4 = emit (MediaCall file_id)
                           (w3\<lparr>fs_files := (fs_files w3)(file_path \<mapsto> concat (chunks downloaded))\<rparr>)
                in
                case failure downloaded of
                  Some e \<Rightarrow> download_failed file_name e w4
                | None \<Rightarrow>
                    logging INFO (''Downloaded: '' @ file_name @ '' to '' @ file_path) w4)"

section \<open>\<open>process_files\<close>\<close>

text \<open>
  \<^verbatim>\<open>
  def process_files(service, files, download_path, parent_folder_name=""):
      for file_data in files:
          file_id = file_data['id']
          file_name = file_data['name']
          mime_type = file_data['mimeType']
          current_download_path = download_path
          if parent_folder_name:
              current_download_path = os.path.join(download_path, parent_folder_name)
              if not os.path.exists(current_download_path):
                  try: ... os.makedirs ... except OSError: ... continue
          if mime_type == 'application/vnd.google-apps.folder':
              logging.info(f"Processing folder: {file_name} (ID: {file_id})")
              sub_files = list_files_in_folder(service, file_id)
              if sub_files:
                  process_files(service, sub_files, download_path,
                                os.path.join(parent_folder_name, file_name)
                                if parent_folder_name else file_name)
              else:
                  logging.info(f"Folder {file_name} is empty.")
          else:
              download_file(service, file_id, file_name, current_download_path)
  \<close>
  The head of the loop body, up to the \<^verbatim>\<open>continue\<close>, is \<open>enter_directory\<close>: it returns
  whether the body goes on, and the next state.
\<close>

definition current_download_path :: "string \<Rightarrow> string \<Rightarrow> string" where
  "current_download_path download_path parent_folder_name =
     (if parent_folder_name \<noteq> [] then path_join download_path parent_folder_name
      else download_path)"

definition enter_directory :: "platform \<Rightarrow> string \<Rightarrow> string \<Rightarrow> world \<Rightarrow> bool \<times> world" where
  "enter_directory pf download_path parent_folder_name w =
     (if parent_folder_name \<noteq> []
         \<and> \<not> path_exists w (current_download_path download_path parent_folder_name)
      then create_directory pf (current_download_path download_path parent_folder_name) w
      else (True, w))"

text \<open>
  The last argument of the nested call:
  \<^verbatim>\<open>os.path.join(parent_folder_name, file_name) if parent_folder_name else file_name\<close>.
\<close>

definition subfolder_name :: "string \<Rightarrow> string \<Rightarrow> string" where
  "subfolder_name parent_folder_name file_name =
     (if parent_folder_name \<noteq> [] then path_join parent_folder_name file_name else file_name)"

text \<open>
  The \<^verbatim>\<open>for\<close> loop is the recursion over the list; the walk into a subfolder is the
  nested call. The remote folders need not form a finite tree, so the function is
  partial: \<open>None\<close> is a walk that never ends. The function has no handler of its own: an
  exception that leaves \<^verbatim>\<open>list_files_in_folder\<close> or a nested call leaves it, too. The
  result \<open>(None, w')\<close> is a return in the state \<open>w'\<close>, and \<open>(Some e, w')\<close> is the
  exception \<open>e\<close> raised in the state \<open>w'\<close>.
\<close>

partial_function (option) process_files ::
  "platform \<Rightarrow> service \<Rightarrow> entry list \<Rightarrow> string \<Rightarrow> string \<Rightarrow> world
     \<Rightarrow> (exn option \<times> world) option" where
  "process_files pf service files download_path parent_folder_name w =
     (case files of
        [] \<Rightarrow> Some (None, w)
      | file_data # rest \<Rightarrow>
          let file_id = entry_id file_data;
              file_name = entry_name file_data;
              mime_type = entry_mimeType file_data;
              entered = enter_directory pf download_path parent_folder_name w
          in
          if \<not> fst entered
          then process_files pf service rest download_path parent_folder_name (snd entered)
          else if mime_type = folder_mime
          then
            (case list_files_in_folder service file_id
                    (logging INFO
                       (''Processing folder: '' @ file_name @ '' (ID: '' @ file_id @ '')'')
                       (snd entered)) of
               None \<Rightarrow> None
             | Some listed \<Rightarrow>
                 (case fst listed of
                    Inl e \<Rightarrow> Some (Some e, snd listed)
                  | Inr sub_files \<Rightarrow>
                      if sub_files \<noteq> []
                      then
                        Option.bind
                          (process_files pf service sub_files download_path
                             (subfolder_name parent_folder_name file_name) (snd listed))
                          (\<lambda>walked.
                             if fst walked \<noteq> None then Some walked
                             else process_files pf service rest download_path
                                    parent_folder_name (snd walked))
                      else
                        process_files pf service rest download_path parent_folder_name
                          (logging INFO (''Folder '' @ file_name @ '' is empty.'')
                             (snd listed))))
          else
            process_files pf service rest download_path parent_folder_name
              (download_file pf service file_id file_name
                 (current_download_path download_path parent_folder_name) (snd entered)))"

declare process_files.simps [code]

section \<open>Credentials and the service object\<close>

text \<open>
  Reading a credential file: the path has been tested with \<^verbatim>\<open>os.path.exists\<close>, so a
  path without content is a directory, and opening it raises.
\<close>

definition read_text :: "world \<Rightarrow> string \<Rightarrow> string + string" where
  "read_text w p =
     (case fs_files w p of
        Some text \<Rightarrow> Inr text
      | None \<Rightarrow> Inl (''[Errno 21] Is a directory: '' @ [CHR 0x27] @ p @ [CHR 0x27]))"

text \<open>
  \<^verbatim>\<open>
  def get_service_account_credentials(filename='service_account.json'):
      try:
          if not os.path.exists(filename):
              raise FileNotFoundError(f"File not found: {filename}.  Download ...")
          creds = service_account.Credentials.from_service_account_file(filename, scopes=SCOPES)
          return creds
      except Exception as e:
          logging.error(f"Error getting service account credentials: {e}")
          return None
  \<close>
\<close>

definition get_service_account_credentials ::
  "platform \<Rightarrow> string \<Rightarrow> world \<Rightarrow> creds option \<times> world" where
  "get_service_account_credentials pf filename w =
     (case (if \<not> path_exists w filename
            then Inl (''File not found: '' @ filename
                       @ ''.  Download your service account JSON from the Google Cloud Console.'')
            else and_then (read_text w filename) (from_service_account_file pf)) of
        Inr c \<Rightarrow> (Some c, w)
      | Inl e \<Rightarrow>
          (None, logging ERROR (''Error getting service account credentials: '' @ e) w))"

text \<open>
  The block of \<^verbatim>\<open>get_credentials_interactive\<close> that saves the refreshed credentials:
  \<^verbatim>\<open>
      try:
          with open(token_path, 'w') as token:
              token.write(creds.to_json())
      except Exception as e:
          logging.warning(f"Failed to save credentials to {token_path}: {e}")
  \<close>
\<close>

definition save_token :: "platform \<Rightarrow> string \<Rightarrow> creds \<Rightarrow> world \<Rightarrow> world" where
  "save_token pf token_path c w =
     (let w1 = emit (OpenWrite token_path) w in
      case open_error pf w token_path of
        Some e \<Rightarrow>
          logging WARNING (''Failed to save credentials to '' @ token_path @ '': '' @ e) w1
      | None \<Rightarrow> w1\<lparr>fs_files := (fs_files w1)(token_path \<mapsto> to_json c)\<rparr>)"

text \<open>
  \<^verbatim>\<open>
  def get_credentials_interactive(token_path='token.json'):
      creds = None
      if os.path.exists(token_path):
          try:
              creds = credentials.Credentials.from_authorized_user_file(token_path, SCOPES)
          except Exception as e:
              logging.error(f"Error loading credentials from {token_path}: {e}")
              creds = None
      if not creds or not creds.valid:
          if creds and creds.expired and creds.refresh_token:
              try:
                  creds.refresh(Request())
              except Exception as e:
                  logging.error(f"Error refreshing credentials: {e}")
                  return None
          else:
              logging.error("Credentials need to be obtained interactively.  ...")
              return None
          (save the credentials)
      return creds
  \<close>
\<close>

definition interactive_needed :: string where
  "interactive_needed =
     ''Credentials need to be obtained interactively.  This is not recommended for background processes.''"

definition get_credentials_interactive ::
  "platform \<Rightarrow> string \<Rightarrow> world \<Rightarrow> creds option \<times> world" where
  "get_credentials_interactive pf token_path w =
     (let loaded =
            (if path_exists w token_path
             then (case and_then (read_text w token_path) (from_authorized_user_file pf) of
                     Inr c \<Rightarrow> (Some c, w)
                   | Inl e \<Rightarrow>
                       (None,
                        logging ERROR
                          (''Error loading credentials from '' @ token_path @ '': '' @ e) w))
             else (None, w));
          w1 = snd loaded
      in
      case fst loaded of
        None \<Rightarrow> (None, logging ERROR interactive_needed w1)
      | Some c \<Rightarrow>
          if valid c then (Some c, w1)
          else if expired c \<and> refresh_token c \<noteq> None \<and> refresh_token c \<noteq> Some []
          then (case refresh pf c of
                  Inl e \<Rightarrow> (None, logging ERROR (''Error refreshing credentials: '' @ e) w1)
                | Inr c' \<Rightarrow> (Some c', save_token pf token_path c' w1))
          else (None, logging ERROR interactive_needed w1))"

text \<open>
  \<^verbatim>\<open>
  def get_credentials(use_service_account=True, service_account_file='service_account.json',
                      token_path='token.json'):
      if use_service_account:
          creds = get_service_account_credentials(service_account_file)
          if creds:
              logging.info("Successfully loaded service account credentials.")
              return creds
          else:
              logging.warning("Failed to load service account credentials.  Falling back ...")
      return get_credentials_interactive(token_path)
  \<close>
\<close>

definition get_credentials ::
  "platform \<Rightarrow> bool \<Rightarrow> string \<Rightarrow> string \<Rightarrow> world \<Rightarrow> creds option \<times> world" where
  "get_credentials pf use_service_account service_account_file token_path w =
     (if use_service_account
      then
        (let r = get_service_account_credentials pf service_account_file w in
         case fst r of
           Some c \<Rightarrow>
             (Some c, logging INFO ''Successfully loaded service account credentials.'' (snd r))
         | None \<Rightarrow>
             get_credentials_interactive pf token_path
               (logging WARNING
                  ''Failed to load service account credentials.  Falling back to user authentication.''
                  (snd r)))
      else get_credentials_interactive pf token_path w)"

text \<open>
  \<^verbatim>\<open>
  def create_service(credentials):
      try:
          service = build('drive', 'v3', credentials=credentials)
          logging.info("Successfully created Google Drive API service.")
          return service
      except Exception as e:
          logging.error(f"Error creating Google Drive service: {e}")
          return None
  \<close>
\<close>

definition create_service :: "platform \<Rightarrow> creds \<Rightarrow> world \<Rightarrow> service option \<times> world" where
  "create_service pf credentials w =
     (case build pf credentials of
        Inr service \<Rightarrow>
          (Some service, logging INFO ''Successfully created Google Drive API service.'' w)
      | Inl e \<Rightarrow> (None, logging ERROR (''Error creating Google Drive service: '' @ e) w))"

section \<open>\<open>download_files_from_shared_link\<close>\<close>

text \<open>
  \<^verbatim>\<open>
  def download_files_from_shared_link(shared_url, download_path, use_service_account=True,
                                      service_account_file='service_account.json',
                                      token_path='token.json'):
      if not shared_url:
          logging.error("Shared URL is required.")
          return False
      if not download_path:
          logging.error("Download path is required.")
          return False
      folder_id = get_shared_folder_id(shared_url)
      if not folder_id:
          logging.error("Invalid Google Drive shared URL.")
          return False
      credentials = get_credentials(use_service_account, service_account_file, token_path)
      if not credentials:
          logging.error("Failed to obtain credentials.")
          return False
      service = create_service(credentials)
      if not service:
          logging.error("Failed to create Google Drive service.")
          return False
      files = list_files_in_folder(service, folder_id)
      if not files:
          logging.warning("No files found in the shared folder or error accessing folder.")
          return True
      process_files(service, files, download_path)
      return True
  \<close>
  The function has no handler. The result is \<open>None\<close> if the run never ends; otherwise it
  is the final state together with \<open>Inr b\<close> for the returned boolean, \<open>Inl (Inl e)\<close> for
  an exception that left \<^verbatim>\<open>get_shared_folder_id\<close>, or \<open>Inl (Inr e)\<close> for one that left
  \<^verbatim>\<open>list_files_in_folder\<close> or \<^verbatim>\<open>process_files\<close>.
\<close>

definition download_files_from_shared_link ::
  "platform \<Rightarrow> pyval \<Rightarrow> string \<Rightarrow> bool \<Rightarrow> string \<Rightarrow> string \<Rightarrow> world
     \<Rightarrow> (((py_error + exn) + bool) \<times> world) option" where
  "download_files_from_shared_link pf shared_url download_path use_service_account
       service_account_file token_path w =
     (if \<not> truthy shared_url
      then Some (Inr False, logging ERROR ''Shared URL is required.'' w)
      else if download_path = []
      then Some (Inr False, logging ERROR ''Download path is required.'' w)
      else
        case get_shared_folder_id shared_url of
          Inl e \<Rightarrow> Some (Inl (Inl e), w)
        | Inr None \<Rightarrow> Some (Inr False, logging ERROR ''Invalid Google Drive shared URL.'' w)
        | Inr (Some folder_id) \<Rightarrow>
            if folder_id = []
            then Some (Inr False, logging ERROR ''Invalid Google Drive shared URL.'' w)
            else
              let got = get_credentials pf use_service_account service_account_file token_path w
              in
              case fst got of
                None \<Rightarrow>
                  Some (Inr False, logging ERROR ''Failed to obtain credentials.'' (snd got))
              | Some credentials \<Rightarrow>
                  let made = create_service pf credentials (snd got) in
                  case fst made of
                    None \<Rightarrow>
                      Some (Inr False,
                            logging ERROR ''Failed to create Google Drive service.'' (snd made))
                  | Some service \<Rightarrow>
                      case list_files_in_folder service folder_id (snd made) of
                        None \<Rightarrow> None
                      | Some listed \<Rightarrow>
                          (case fst listed of
                             Inl e \<Rightarrow> Some (Inl (Inr e), snd listed)
                           | Inr files \<Rightarrow>
                               if files = []
                               then Some (Inr True,
                                          logging WARNING
                                            ''No files found in the shared folder or error accessing folder.''
                                            (snd listed))
                               else
                                 (case process_files pf service files download_path []
                                         (snd listed) of
                                    None \<Rightarrow> None
                                  | Some (Some e, w') \<Rightarrow> Some (Inl (Inr e), w')
                                  | Some (None, w') \<Rightarrow> Some (Inr True, w'))))"

section \<open>Remote sources: pages, failures, finite trees\<close>

text \<open>The entries of a response: \<^verbatim>\<open>results_page.get('files', [])\<close>.\<close>

definition page_items :: "response \<Rightarrow> entry list" where
  "page_items r = (case page_files r of None \<Rightarrow> [] | Some xs \<Rightarrow> xs)"

text \<open>
  A paginated listing source with the pages \<open>p\<^sub>1, \<dots>, p\<^sub>N\<close> (\<open>N \<ge> 1\<close>) for the query
  \<open>q\<close>, from the cursor \<open>tok\<close> on: the request with \<open>tok\<close> returns \<open>p\<^sub>1\<close> and a
  non-empty continuation cursor, under which the remaining pages are served in the same
  way; the last page comes without a cursor.
\<close>

fun paginates :: "service \<Rightarrow> string \<Rightarrow> string option \<Rightarrow> entry list list \<Rightarrow> bool" where
  "paginates service q tok [] = False"
| "paginates service q tok [p] =
     (case files_list service q tok of
        Inl _ \<Rightarrow> False
      | Inr r \<Rightarrow> page_items r = p \<and> (nextPageToken r = None \<or> nextPageToken r = Some []))"
| "paginates service q tok (p # ps) =
     (case files_list service q tok of
        Inl _ \<Rightarrow> False
      | Inr r \<Rightarrow>
          page_items r = p \<and>
          (case nextPageToken r of
             None \<Rightarrow> False
           | Some t \<Rightarrow> t \<noteq> [] \<and> paginates service q (Some t) ps))"

text \<open>
  A source that serves the non-empty pages \<open>ps\<close>, each with a continuation cursor, and
  raises \<open>error\<close> at the next request.
\<close>

fun fails_after ::
  "service \<Rightarrow> string \<Rightarrow> string option \<Rightarrow> entry list list \<Rightarrow> exn \<Rightarrow> bool" where
  "fails_after service q tok [] error = (files_list service q tok = Inl error)"
| "fails_after service q tok (p # ps) error =
     (case files_list service q tok of
        Inl _ \<Rightarrow> False
      | Inr r \<Rightarrow>
          page_items r = p \<and> p \<noteq> [] \<and>
          (case nextPageToken r of
             None \<Rightarrow> False
           | Some t \<Rightarrow> t \<noteq> [] \<and> fails_after service q (Some t) ps error))"

text \<open>
  The outcome of \<^verbatim>\<open>list_files_in_folder\<close> for a folder, a returned list or an exception;
  the state plays no part in it.
\<close>

definition listing :: "service \<Rightarrow> string \<Rightarrow> (exn + entry list) option" where
  "listing service folder_id =
     (case list_pages service folder_id None [] [] of
        None \<Rightarrow> None
      | Some (Inr results, calls) \<Rightarrow> Some (Inr results)
      | Some (Inl (HttpError error), calls) \<Rightarrow> Some (Inr [])
      | Some (Inl (OtherException msg), calls) \<Rightarrow> Some (Inl (OtherException msg)))"

text \<open>
  The remote tree below a list of entries can be walked: \<^verbatim>\<open>list_files_in_folder\<close>
  returns a list for every folder among them (the empty list, if the request raised
  \<^verbatim>\<open>HttpError\<close>), and the tree below what it returns can be walked.
\<close>

inductive finite_tree :: "service \<Rightarrow> entry list \<Rightarrow> bool" for service :: service where
  Nil: "finite_tree service []"
| File: "entry_mimeType e \<noteq> folder_mime \<Longrightarrow> finite_tree service rest
           \<Longrightarrow> finite_tree service (e # rest)"
| Folder: "entry_mimeType e = folder_mime \<Longrightarrow> listing service (entry_id e) = Some (Inr sub)
           \<Longrightarrow> finite_tree service sub \<Longrightarrow> finite_tree service rest
           \<Longrightarrow> finite_tree service (e # rest)"

text \<open>
  The service honours the listing filter for a notion of "in the trash": a request whose
  query ends with \<^verbatim>\<open>trashed=false\<close> returns no entry that is in the trash.
\<close>

definition honours_filter :: "service \<Rightarrow> (entry \<Rightarrow> bool) \<Rightarrow> bool" where
  "honours_filter service trashed \<longleftrightarrow>
     (\<forall>q tok r. suffix ''trashed=false'' q \<and> files_list service q tok = Inr r
        \<longrightarrow> (\<forall>e \<in> set (page_items r). \<not> trashed e))"

text \<open>The first log record of the folder branch of \<^verbatim>\<open>process_files\<close>.\<close>

definition processing_folder :: "entry \<Rightarrow> world \<Rightarrow> world" where
  "processing_folder e w =
     logging INFO (''Processing folder: '' @ entry_name e @ '' (ID: '' @ entry_id e @ '')'') w"

text \<open>
  How \<^verbatim>\<open>process_files\<close> goes on after a part of its work: an exception ends it, and
  otherwise \<open>f\<close> is run from the state reached.
\<close>

definition go_on ::
  "(world \<Rightarrow> (exn option \<times> world) option) \<Rightarrow> exn option \<times> world
     \<Rightarrow> (exn option \<times> world) option" where
  "go_on f walked = (if fst walked \<noteq> None then Some walked else f (snd walked))"

text \<open>
  The event that shows that the loop body of \<^verbatim>\<open>process_files\<close> ran for an entry: the
  first listing request for a folder, the metadata request for a file, or, if the
  directory of the current level could not be created, the error record written before
  \<^verbatim>\<open>continue\<close>. At the top level (\<open>parent_folder_name\<close> empty) no directory is created,
  and the event is the request.
\<close>

definition handled :: "string \<Rightarrow> string \<Rightarrow> entry \<Rightarrow> event \<Rightarrow> bool" where
  "handled download_path parent_folder_name e ev \<longleftrightarrow>
     (if entry_mimeType e = folder_mime then ev = ListCall (query (entry_id e)) None
      else ev = GetCall (entry_id e))
     \<or> (parent_folder_name \<noteq> []
        \<and> (\<exists>m. ev = Log ERROR
                 (''Failed to create directory ''
                    @ current_download_path download_path parent_folder_name @ '': '' @ m)))"

section \<open>Concrete sources and machines\<close>

text \<open>
  Small remote sources and local machines on which the functions can be run: a listing
  served in pages, a tree \<^verbatim>\<open>root/{bad.txt, locked/, sub/{b.txt}, a.txt}\<close> in which one
  download and one listing fail, a tree \<^verbatim>\<open>root/{a.txt, sub/}\<close> in which the connection
  breaks while \<^verbatim>\<open>sub\<close> is listed, and machines that do or do not let directories be
  created.
\<close>

definition empty_world :: world where
  "empty_world = \<lparr>fs_dirs = {}, fs_files = Map.empty, trace = []\<rparr>"

definition demo_world :: world where
  "demo_world =
     \<lparr>fs_dirs = {''dest''}, fs_files = [''service_account.json'' \<mapsto> ''{}''], trace = []\<rparr>"

definition entry_a :: entry where
  "entry_a = \<lparr>entry_id = ''id-a'', entry_name = ''a.txt'', entry_mimeType = ''text/plain''\<rparr>"

definition entry_b :: entry where
  "entry_b = \<lparr>entry_id = ''id-b'', entry_name = ''b.txt'', entry_mimeType = ''text/plain''\<rparr>"

definition entry_sub :: entry where
  "entry_sub = \<lparr>entry_id = ''id-sub'', entry_name = ''sub'', entry_mimeType = folder_mime\<rparr>"

definition entry_bad :: entry where
  "entry_bad =
     \<lparr>entry_id = ''id-bad'', entry_name = ''bad.txt'', entry_mimeType = ''text/plain''\<rparr>"

definition entry_locked :: entry where
  "entry_locked =
     \<lparr>entry_id = ''id-locked'', entry_name = ''locked'', entry_mimeType = folder_mime\<rparr>"

definition page :: "entry list \<Rightarrow> string \<Rightarrow> response" where
  "page xs cursor = \<lparr>page_files = Some xs, nextPageToken = Some cursor\<rparr>"

definition last_page :: "entry list \<Rightarrow> response" where
  "last_page xs = \<lparr>page_files = Some xs, nextPageToken = None\<rparr>"

text \<open>A service that answers every listing query from the cursor alone.\<close>

definition listing_only :: "(string option \<Rightarrow> exn + response) \<Rightarrow> service" where
  "listing_only f =
     \<lparr>files_list = (\<lambda>q. f),
      files_get = (\<lambda>i. Inr ''text/plain''),
      files_get_media = (\<lambda>i. \<lparr>chunks = [], failure = None\<rparr>)\<rparr>"

definition two_pages :: service where
  "two_pages = listing_only (\<lambda>tok.
     if tok = None then Inr (page [entry_a] ''p2'') else Inr (last_page [entry_b]))"

definition sparse_pages :: service where
  "sparse_pages = listing_only (\<lambda>tok.
     if tok = None then Inr (page [entry_a] ''p2'')
     else if tok = Some ''p2'' then Inr (page [] ''p3'')
     else Inr (last_page [entry_b]))"

definition broken_pages :: service where
  "broken_pages = listing_only (\<lambda>tok.
     if tok = None then Inr (page [entry_a] ''p2'')
     else Inl (HttpError ''500 Internal Server Error''))"

definition empty_folder :: service where
  "empty_folder = listing_only (\<lambda>tok. Inr (last_page []))"

text \<open>
  A service whose listing request raises \<^verbatim>\<open>ConnectionError('connection reset')\<close>, and one
  that lists the root and loses the connection when it is asked for the subfolder.
\<close>

definition dropped_connection :: service where
  "dropped_connection = listing_only (\<lambda>tok. Inl (OtherException ''connection reset''))"

definition dropping_service :: service where
  "dropping_service =
     \<lparr>files_list = (\<lambda>q tok.
         if q = query ''id-root'' then Inr (last_page [entry_a, entry_sub])
         else Inl (OtherException ''connection reset'')),
      files_get = (\<lambda>i. Inr ''text/plain''),
      files_get_media = (\<lambda>i. \<lparr>chunks = [''data:'', i], failure = None\<rparr>)\<rparr>"

definition faulty_service :: service where
  "faulty_service =
     \<lparr>files_list = (\<lambda>q tok.
         if q = query ''id-root''
         then Inr (last_page [entry_bad, entry_locked, entry_sub, entry_a])
         else if q = query ''id-locked'' then Inl (HttpError ''403 Forbidden'')
         else if q = query ''id-sub'' then Inr (last_page [entry_b])
         else Inr (last_page [])),
      files_get = (\<lambda>i. if i = ''id-bad'' then Inl (HttpError ''404 Not Found'')
                        else Inr ''text/plain''),
      files_get_media = (\<lambda>i. \<lparr>chunks = [''data:'', i], failure = None\<rparr>)\<rparr>"

definition demo_creds :: creds where
  "demo_creds = \<lparr>valid = True, expired = False, refresh_token = None, to_json = ''{}''\<rparr>"

text \<open>A machine on which nothing fails, connected to the service \<open>s\<close>.\<close>

definition quiet_platform :: "service \<Rightarrow> platform" where
  "quiet_platform s =
     \<lparr>makedirs_error = (\<lambda>w p. None),
      open_error = (\<lambda>w p. None),
      from_service_account_file = (\<lambda>t. Inr demo_creds),
      from_authorized_user_file = (\<lambda>t. Inl ''no token''),
      refresh = (\<lambda>c. Inr c),
      build = (\<lambda>c. Inr s)\<rparr>"

text \<open>A machine that lets no directory be created, connected to \<open>faulty_service\<close>.\<close>

definition denying_platform :: platform where
  "denying_platform =
     (quiet_platform faulty_service)
       \<lparr>makedirs_error := (\<lambda>w p. Some ''[Errno 13] Permission denied'')\<rparr>"

definition share_url :: string where
  "share_url = ''https://drive.google.com/drive/folders/id-root?usp=sharing''"

section \<open>Traces\<close>

text \<open>
  \<open>extends P w w'\<close>: the state \<open>w'\<close> has the trace of \<open>w\<close> followed by events that
  all satisfy \<open>P\<close>.
\<close>

definition extends :: "(event \<Rightarrow> bool) \<Rightarrow> world \<Rightarrow> world \<Rightarrow> bool" where
  "extends P w w' \<longleftrightarrow> (\<exists>evs. trace w' = trace w @ evs \<and> (\<forall>ev \<in> set evs. P ev))"

text \<open>
  An event that is no request for an entry in the trash: a listing, metadata or media
  request is one for the identifier of an entry that is not in the trash.
\<close>

definition untrashed_request :: "(entry \<Rightarrow> bool) \<Rightarrow> event \<Rightarrow> bool" where
  "untrashed_request trashed ev =
     (case ev of
        ListCall q tok \<Rightarrow> \<exists>e. \<not> trashed e \<and> q = query (entry_id e)
      | GetCall i \<Rightarrow> \<exists>e. \<not> trashed e \<and> i = entry_id e
      | MediaCall i \<Rightarrow> \<exists>e. \<not> trashed e \<and> i = entry_id e
      | _ \<Rightarrow> True)"

text \<open>
  The mocked tree \<^verbatim>\<open>root/{a.txt, sub/{b.txt}}\<close>, and a service with an entry in the trash,
  which it leaves out when the query asks for it.
\<close>

definition entry_z :: entry where
  "entry_z = \<lparr>entry_id = ''id-z'', entry_name = ''old.txt'', entry_mimeType = ''text/plain''\<rparr>"

definition bin_service :: service where
  "bin_service =
     \<lparr>files_list = (\<lambda>q tok.
         if suffix ''trashed=false'' q then Inr (last_page [entry_a])
         else Inr (last_page [entry_a, entry_z])),
      files_get = (\<lambda>i. Inr ''text/plain''),
      files_get_media = (\<lambda>i. \<lparr>chunks = [''data:'', i], failure = None\<rparr>)\<rparr>"

definition tree_service :: service where
  "tree_service =
     \<lparr>files_list = (\<lambda>q tok.
         if q = query ''id-root'' then Inr (last_page [entry_a, entry_sub])
         else if q = query ''id-sub'' then Inr (last_page [entry_b])
         else Inr (last_page [])),
      files_get = (\<lambda>i. Inr ''text/plain''),
      files_get_media = (\<lambda>i. \<lparr>chunks = [''data:'', i], failure = None\<rparr>)\<rparr>"

section \<open>Properties of the URL parser\<close>

subsection \<open>Substrings\<close>

lemma contains_iff: "contains sub s \<longleftrightarrow> (\<exists>p q. s = p @ sub @ q)"
proof (induction s)
  case Nil
  then show ?case by auto
next
  case (Cons c cs)
  show ?case
  proof
    assume "contains sub (c # cs)"
    then consider "prefix sub (c # cs)" | "contains sub cs" by auto
    then show "\<exists>p q. c # cs = p @ sub @ q"
    proof cases
      case 1
      then obtain q where "c # cs = sub @ q" by (auto simp: prefix_def)
      then have "c # cs = [] @ sub @ q" by simp
      then show ?thesis by blast
    next
      case 2
      with Cons.IH obtain p q where "cs = p @ sub @ q" by blast
      then have "c # cs = (c # p) @ sub @ q" by simp
      then show ?thesis by blast
    qed
  next
    assume "\<exists>p q. c # cs = p @ sub @ q"
    then obtain p q where pq: "c # cs = p @ sub @ q" by blast
    show "contains sub (c # cs)"
    proof (cases p)
      case Nil
      with pq have "prefix sub (c # cs)" by (simp add: prefix_def)
      then show ?thesis by simp
    next
      case (Cons a p')
      with pq have "cs = p' @ sub @ q" by simp
      with Cons.IH have "contains sub cs" by blast
      then show ?thesis by simp
    qed
  qed
qed

lemma contains_nonempty: "contains m s \<Longrightarrow> m \<noteq> [] \<Longrightarrow> s \<noteq> []"
  by (cases s) auto

text \<open>\<open>text_after\<close> cuts behind the first occurrence.\<close>

lemma text_after_here: "text_after m (m @ q) = q"
proof (cases "m @ q")
  case Nil
  then show ?thesis by simp
next
  case (Cons a list)
  have "prefix m (m @ q)" by simp
  then have "text_after m (a # list) = drop (length m) (a # list)"
    unfolding Cons by simp
  then show ?thesis
    unfolding Cons [symmetric] by simp
qed

lemma text_after_first:
  "\<forall>i<length p. \<not> prefix m (drop i (p @ m @ q)) \<Longrightarrow> text_after m (p @ m @ q) = q"
proof (induction p)
  case Nil
  then show ?case by (simp add: text_after_here)
next
  case (Cons c p)
  from Cons.prems have "\<not> prefix m (drop 0 ((c # p) @ m @ q))" by blast
  then have np: "\<not> prefix m (c # p @ m @ q)" by simp
  have "\<forall>i<length p. \<not> prefix m (drop i (p @ m @ q))"
  proof (intro allI impI)
    fix i assume "i < length p"
    then have "Suc i < length (c # p)" by simp
    with Cons.prems have "\<not> prefix m (drop (Suc i) ((c # p) @ m @ q))" by blast
    then show "\<not> prefix m (drop i (p @ m @ q))" by simp
  qed
  then have "text_after m (p @ m @ q) = q" by (rule Cons.IH)
  with np show ?case by simp
qed

text \<open>
  \<open>text_up_to\<close> returns a prefix in which no stop begins, and which ends where a stop
  begins or where the string ends.
\<close>

lemma text_up_to_prefix: "prefix (text_up_to stops s) s"
  by (induction s) auto

lemma text_up_to_no_stop:
  "i < length (text_up_to stops s) \<Longrightarrow> st \<in> set stops \<Longrightarrow> \<not> prefix st (drop i s)"
proof (induction s arbitrary: i)
  case Nil
  then show ?case by simp
next
  case (Cons c cs)
  then show ?case by (cases i) (auto split: if_splits)
qed

lemma text_up_to_end:
  "text_up_to stops s = s \<or> (\<exists>st \<in> set stops. prefix st (drop (length (text_up_to stops s)) s))"
  by (induction s) auto

lemma text_up_to_empty: "text_up_to stops q = [] \<longleftrightarrow> at_stop stops q"
  by (cases q) (auto simp: at_stop_def)

lemma text_up_to_char:
  "text_up_to [[t]] (text_up_to [m] q) = text_up_to [[t], m] q"
  by (induction q) auto

subsection \<open>\<open>split\<close> in terms of substrings\<close>

lemma split_from_first:
  "sep \<noteq> [] \<Longrightarrow> \<exists>rest. split_from sep cur s = (cur @ text_up_to [sep] s) # rest"
  by (induction sep cur s rule: split_from.induct) auto

lemma split_from_second:
  "sep \<noteq> [] \<Longrightarrow> contains sep s \<Longrightarrow>
   \<exists>piece. split_from sep cur s = piece # split_from sep [] (text_after sep s)"
  by (induction sep cur s rule: split_from.induct) auto

lemma extract_id_eq:
  assumes "m \<noteq> []" and "contains m url"
  shows "extract_id (PyStr url) m [t] = Inr (Some (text_up_to [[t], m] (text_after m url)))"
proof -
  from assms obtain piece where
    "split_from m [] url = piece # split_from m [] (text_after m url)"
    using split_from_second by blast
  moreover from assms(1) obtain rest where
    "split_from m [] (text_after m url) = text_up_to [m] (text_after m url) # rest"
    using split_from_first [of m "[]" "text_after m url"] by auto
  ultimately have "py_index (split_from m [] url) 1 = Inr (text_up_to [m] (text_after m url))"
    by (simp add: py_index_def)
  moreover obtain rest' where
    "split_from [t] [] (text_up_to [m] (text_after m url))
       = text_up_to [[t]] (text_up_to [m] (text_after m url)) # rest'"
    using split_from_first [of "[t]" "[]"] by auto
  ultimately show ?thesis using assms(1)
    by (simp add: extract_id_def and_then_def py_split_def py_index_def text_up_to_char)
qed

subsection \<open>The three outcomes on a string\<close>

lemma get_shared_folder_id_new:
  assumes "contains ''folders/'' url"
  shows "get_shared_folder_id (PyStr url)
     = Inr (Some (text_up_to [''?'', ''folders/''] (text_after ''folders/'' url)))"
proof -
  from assms have "url \<noteq> []" by (rule contains_nonempty) simp
  with assms show ?thesis
    by (simp add: get_shared_folder_id_def try_body_def and_then_def extract_id_eq)
qed

lemma get_shared_folder_id_old:
  assumes "\<not> contains ''folders/'' url" and "contains ''folderview?id='' url"
  shows "get_shared_folder_id (PyStr url)
     = Inr (Some (text_up_to [''&'', ''folderview?id=''] (text_after ''folderview?id='' url)))"
proof -
  from assms(2) have "url \<noteq> []" by (rule contains_nonempty) simp
  with assms show ?thesis
    by (simp add: get_shared_folder_id_def try_body_def and_then_def extract_id_eq)
qed

lemma get_shared_folder_id_none:
  assumes "\<not> contains ''folders/'' url" and "\<not> contains ''folderview?id='' url"
  shows "get_shared_folder_id (PyStr url) = Inr None"
  using assms by (simp add: get_shared_folder_id_def try_body_def and_then_def)

lemmas parser_defs =
  get_shared_folder_id_def try_body_def extract_id_def and_then_def py_split_def py_index_def

subsection \<open>C1: the identifier is the text between the marker and its terminator\<close>

text \<open>
  C1, as the code has it. For every URL that contains \<^verbatim>\<open>folders/\<close>, the function returns
  the text between the first \<^verbatim>\<open>folders/\<close> and the next \<^verbatim>\<open>?\<close> or the next
  \<^verbatim>\<open>folders/\<close>, or the end of the string if neither follows. For every URL that does not
  contain \<^verbatim>\<open>folders/\<close> but contains \<^verbatim>\<open>folderview?id=\<close>, it returns the text between
  the first \<^verbatim>\<open>folderview?id=\<close> and the next \<^verbatim>\<open>&\<close> or the next \<^verbatim>\<open>folderview?id=\<close>,
  or the end of the string. Each marker has one terminating character of its own: \<^verbatim>\<open>&\<close>
  does not end an identifier behind \<^verbatim>\<open>folders/\<close>, and \<^verbatim>\<open>?\<close> does not end one
  behind \<^verbatim>\<open>folderview?id=\<close>.
\<close>

theorem get_shared_folder_id_between:
  "(contains ''folders/'' url \<longrightarrow>
      get_shared_folder_id (PyStr url)
        = Inr (Some (text_up_to [''?'', ''folders/''] (text_after ''folders/'' url))))
   \<and> (\<not> contains ''folders/'' url \<and> contains ''folderview?id='' url \<longrightarrow>
      get_shared_folder_id (PyStr url)
        = Inr (Some (text_up_to [''&'', ''folderview?id='']
                       (text_after ''folderview?id='' url))))"
  using get_shared_folder_id_new get_shared_folder_id_old by blast

theorem get_shared_folder_id_between_witness:
  "contains ''folders/'' ''https://drive.google.com/drive/folders/1AbC_d-9?usp=sharing''
   \<and> get_shared_folder_id (PyStr ''https://drive.google.com/drive/folders/1AbC_d-9?usp=sharing'')
       = Inr (Some ''1AbC_d-9'')
   \<and> \<not> contains ''folders/'' ''https://drive.google.com/folderview?id=1AbC_d-9&usp=sharing''
   \<and> contains ''folderview?id='' ''https://drive.google.com/folderview?id=1AbC_d-9&usp=sharing''
   \<and> get_shared_folder_id (PyStr ''https://drive.google.com/folderview?id=1AbC_d-9&usp=sharing'')
       = Inr (Some ''1AbC_d-9'')"
  using
    get_shared_folder_id_between
      [of "''https://drive.google.com/drive/folders/1AbC_d-9?usp=sharing''"]
    get_shared_folder_id_between
      [of "''https://drive.google.com/folderview?id=1AbC_d-9&usp=sharing''"]
  by simp

text \<open>
  C1 as the specification words it (either of \<^verbatim>\<open>?\<close> and \<^verbatim>\<open>&\<close> ends the identifier,
  and nothing else does) does not hold: behind \<^verbatim>\<open>folders/\<close> the code runs past an
  \<^verbatim>\<open>&\<close>, and it stops at a second occurrence of the marker.
\<close>

theorem get_shared_folder_id_not_claimed:
  "get_shared_folder_id (PyStr ''https://drive.google.com/drive/folders/ABC&usp=sharing'')
     = Inr (Some ''ABC&usp=sharing'')
   \<and> claimed_folder_id ''https://drive.google.com/drive/folders/ABC&usp=sharing'' = Some ''ABC''
   \<and> get_shared_folder_id (PyStr ''folders/a/folders/b'') = Inr (Some ''a/'')
   \<and> claimed_folder_id ''folders/a/folders/b'' = Some ''a/folders/b''"
  by (simp add: parser_defs claimed_folder_id_def)

subsection \<open>C8: when the identifier is empty\<close>

text \<open>
  When the returned identifier is empty: exactly if the first marker is directly followed
  by the end of the string, by the marker's terminating character or by the marker
  again. The function has no test for it; \<^verbatim>\<open>split(marker)[1]\<close> exists whenever the
  marker occurs, so that \<^verbatim>\<open>except IndexError: return None\<close>, the handler for "nothing
  behind the marker", is never entered.
\<close>

lemma get_shared_folder_id_empty_iff:
  assumes "get_shared_folder_id (PyStr url) = Inr (Some r)"
  shows "(contains ''folders/'' url \<longrightarrow>
            (r = [] \<longleftrightarrow> at_stop [''?'', ''folders/''] (text_after ''folders/'' url)))
       \<and> (\<not> contains ''folders/'' url \<longrightarrow>
            contains ''folderview?id='' url
            \<and> (r = [] \<longleftrightarrow> at_stop [''&'', ''folderview?id='']
                                  (text_after ''folderview?id='' url)))"
proof (cases "contains ''folders/'' url")
  case True
  with assms get_shared_folder_id_new [OF True] show ?thesis
    by (auto simp: text_up_to_empty [symmetric])
next
  case False
  show ?thesis
  proof (cases "contains ''folderview?id='' url")
    case True
    with assms False get_shared_folder_id_old [OF False True] show ?thesis
      by (auto simp: text_up_to_empty [symmetric])
  next
    case no: False
    with assms False get_shared_folder_id_none [of url] show ?thesis by simp
  qed
qed

text \<open>
  C8 (whenever an identifier is returned for a string, it is a non-empty string) fails
  for the URL \<^verbatim>\<open>https://drive.google.com/drive/folders/\<close>, which ends with the marker:
  the function returns the empty string. That is neither of the two results of its
  docstring ("The folder ID, or None if the URL is invalid"): the empty string is no
  folder identifier, and the caller, \<^verbatim>\<open>download_files_from_shared_link\<close>, reports
  "Invalid Google Drive shared URL." for it.
\<close>

theorem get_shared_folder_id_empty_identifier:
  "get_shared_folder_id (PyStr ''https://drive.google.com/drive/folders/'') = Inr (Some [])"
  by (simp add: parser_defs)

subsection \<open>C9: input without a marker\<close>

lemma get_shared_folder_id_no_marker:
  assumes "\<not> holds_marker ''folders/'' x" and "\<not> holds_marker ''folderview?id='' x"
  shows "get_shared_folder_id x = Inr None"
  using assms by (cases x) (simp_all add: get_shared_folder_id_def try_body_def and_then_def)

lemma get_shared_folder_id_str_no_raise: "get_shared_folder_id (PyStr s) \<noteq> Inl e"
  using get_shared_folder_id_new [of s] get_shared_folder_id_old [of s]
    get_shared_folder_id_none [of s]
  by fastforce

lemma get_shared_folder_id_raise:
  assumes "get_shared_folder_id x = Inl e"
  shows "e = AttributeError \<and> (\<exists>xs. x = PyList xs)"
proof (cases x)
  case (PyStr s)
  with assms get_shared_folder_id_str_no_raise show ?thesis by blast
next
  case (PyList xs)
  with assms show ?thesis
    by (auto simp: get_shared_folder_id_def try_body_def and_then_def extract_id_def
        split: if_splits sum.splits py_error.splits)
qed (use assms in \<open>auto simp: get_shared_folder_id_def try_body_def and_then_def split: if_splits\<close>)

text \<open>
  The one way in which an exception leaves the function: a list that has a marker as an
  element passes the test \<^verbatim>\<open>"folders/" in shared_url\<close>, and \<^verbatim>\<open>shared_url.split\<close>
  raises \<^verbatim>\<open>AttributeError\<close>. A list is not a value of the parameter, which is a string
  by the docstring (\<^verbatim>\<open>shared_url (str)\<close>) and at every call: the callers pass the text
  of an entry field and a command-line argument.
\<close>

lemma get_shared_folder_id_raises_on_list:
  "get_shared_folder_id (PyList [PyStr ''folders/'']) = Inl AttributeError"
  by (simp add: parser_defs)

text \<open>
  C9. For every input in which the function finds neither marker (the empty string,
  every string without a marker, and the values that are no strings: \<^verbatim>\<open>None\<close>, every
  boolean and integer, every list without a marker among its elements) it returns
  \<^verbatim>\<open>None\<close>, and so raises nothing. On every string, with or without a marker, and on
  \<^verbatim>\<open>None\<close>, every boolean and every integer, no exception leaves the function.
\<close>

theorem get_shared_folder_id_unrecognized:
  "(\<not> holds_marker ''folders/'' x \<and> \<not> holds_marker ''folderview?id='' x
      \<longrightarrow> get_shared_folder_id x = Inr None)
   \<and> ((\<forall>xs. x \<noteq> PyList xs) \<longrightarrow> (\<forall>e. get_shared_folder_id x \<noteq> Inl e))"
  using get_shared_folder_id_no_marker get_shared_folder_id_raise by blast

theorem get_shared_folder_id_unrecognized_witness:
  "get_shared_folder_id (PyStr ''https://example.com/some/page?id=7'') = Inr None
   \<and> get_shared_folder_id (PyStr []) = Inr None
   \<and> get_shared_folder_id PyNone = Inr None
   \<and> get_shared_folder_id (PyInt 5) = Inr None
   \<and> get_shared_folder_id (PyList [PyInt 5]) = Inr None
   \<and> (\<forall>e. get_shared_folder_id (PyStr ''https://drive.google.com/drive/folders/?x'') \<noteq> Inl e)"
  using
    get_shared_folder_id_unrecognized [of "PyStr ''https://example.com/some/page?id=7''"]
    get_shared_folder_id_unrecognized [of "PyStr []"]
    get_shared_folder_id_unrecognized [of PyNone]
    get_shared_folder_id_unrecognized [of "PyInt 5"]
    get_shared_folder_id_unrecognized [of "PyList [PyInt 5]"]
    get_shared_folder_id_unrecognized [of "PyStr ''https://drive.google.com/drive/folders/?x''"]
  by simp

section \<open>Properties of the listing loop\<close>

subsection \<open>Log records and other events\<close>

lemma emit_frame [simp]:
  "fs_dirs (emit e w) = fs_dirs w" "fs_files (emit e w) = fs_files w"
  "trace (emit e w) = trace w @ [e]"
  by (simp_all add: emit_def)

lemma logging_frame [simp]:
  "fs_dirs (logging l m w) = fs_dirs w" "fs_files (logging l m w) = fs_files w"
  "trace (logging l m w) = trace w @ [Log l m]"
  by (simp_all add: logging_def)

subsection \<open>Paginated sources\<close>

lemma list_pages_paginates:
  "paginates service (query folder_id) tok pages \<Longrightarrow>
   \<exists>new. list_pages service folder_id tok results calls
      = Some (Inr (results @ concat (takeWhile (\<lambda>p. p \<noteq> []) pages)), calls @ new)"
proof (induction pages arbitrary: tok results calls)
  case Nil
  then show ?case by simp
next
  case (Cons p ps)
  show ?case
  proof (cases ps)
    case Nil
    with Cons.prems show ?thesis
      by (subst list_pages.simps)
        (auto simp: page_items_def Let_def split: sum.splits option.splits)
  next
    case (Cons p' ps')
    with Cons.prems obtain r t where r: "files_list service (query folder_id) tok = Inr r"
      and p: "page_items r = p" and t: "nextPageToken r = Some t" "t \<noteq> []"
      and rest: "paginates service (query folder_id) (Some t) ps"
      by (auto split: sum.splits option.splits)
    show ?thesis
    proof (cases "p = []")
      case True
      with r p t show ?thesis
        by (subst list_pages.simps) (auto simp: page_items_def Let_def split: option.splits)
    next
      case False
      from Cons.IH [OF rest] obtain new where
        "list_pages service folder_id (Some t) (results @ p)
           (calls @ [ListCall (query folder_id) tok])
         = Some (Inr ((results @ p) @ concat (takeWhile (\<lambda>p. p \<noteq> []) ps)),
                 (calls @ [ListCall (query folder_id) tok]) @ new)"
        by blast
      with r p t False show ?thesis
        by (subst list_pages.simps) (auto simp: page_items_def Let_def split: option.splits)
    qed
  qed
qed

lemma list_pages_fails_after:
  "fails_after service (query folder_id) tok pages error \<Longrightarrow>
   \<exists>new. list_pages service folder_id tok results calls = Some (Inl error, calls @ new)
     \<and> length new = Suc (length pages)"
proof (induction pages arbitrary: tok results calls)
  case Nil
  then show ?case by (subst list_pages.simps) simp
next
  case (Cons p ps)
  then obtain r t where r: "files_list service (query folder_id) tok = Inr r"
    and p: "page_items r = p" "p \<noteq> []" and t: "nextPageToken r = Some t" "t \<noteq> []"
    and rest: "fails_after service (query folder_id) (Some t) ps error"
    by (auto split: sum.splits option.splits)
  from Cons.IH [OF rest] obtain new where
    "list_pages service folder_id (Some t) (results @ p)
       (calls @ [ListCall (query folder_id) tok])
     = Some (Inl error, (calls @ [ListCall (query folder_id) tok]) @ new)"
    and "length new = Suc (length ps)"
    by blast
  with r p t show ?case
    by (subst list_pages.simps) (auto simp: page_items_def Let_def split: option.splits)
qed

subsection \<open>Whatever the loop returns\<close>

text \<open>
  Two facts about every run of the loop that ends, by the induction rule of the partial
  function: the requests it makes all carry the query of the folder, and a property of
  the entries that every response satisfies holds for the entries it returns.
\<close>

lemma list_pages_calls:
  assumes ret: "list_pages service folder_id tok results calls = Some y"
  shows "\<exists>new. snd y = calls @ new \<and> (\<forall>ev \<in> set new. \<exists>t. ev = ListCall (query folder_id) t)"
proof (rule list_pages.raw_induct
    [where P = "\<lambda>service folder_id tok results calls y.
       \<exists>new. snd y = calls @ new \<and> (\<forall>ev \<in> set new. \<exists>t. ev = ListCall (query folder_id) t)",
     OF _ ret])
  fix f service folder_id tok results calls y
  assume IH: "\<And>service folder_id tok results calls y. f service folder_id tok results calls = Some y \<Longrightarrow>
      \<exists>new. snd y = calls @ new \<and> (\<forall>ev \<in> set new. \<exists>t. ev = ListCall (query folder_id) t)"
    and eq: "(let calls' = calls @ [ListCall (query folder_id) tok] in
      case files_list service (query folder_id) tok of
        Inl error \<Rightarrow> Some (Inl error, calls')
      | Inr results_page \<Rightarrow>
          if page_files results_page = None \<and> nextPageToken results_page = None
          then Some (Inr results, calls')
          else
            let items = (case page_files results_page of None \<Rightarrow> [] | Some xs \<Rightarrow> xs) in
            if items = [] then Some (Inr results, calls')
            else
              let results' = results @ items;
                  page_token' = nextPageToken results_page
              in
              if page_token' = None \<or> page_token' = Some [] then Some (Inr results', calls')
              else f service folder_id page_token' results' calls') = Some y"
  let ?c = "calls @ [ListCall (query folder_id) tok]"
  from eq consider "snd y = ?c"
    | t res where "f service folder_id t res ?c = Some y"
    by (auto simp: Let_def split: sum.splits if_splits)
  then show "\<exists>new. snd y = calls @ new \<and> (\<forall>ev \<in> set new. \<exists>t. ev = ListCall (query folder_id) t)"
  proof cases
    case 1
    then show ?thesis by auto
  next
    case 2
    from IH [OF 2] obtain new where "snd y = ?c @ new"
      and "\<forall>ev \<in> set new. \<exists>t. ev = ListCall (query folder_id) t" by blast
    then have "snd y = calls @ (ListCall (query folder_id) tok # new)
       \<and> (\<forall>ev \<in> set (ListCall (query folder_id) tok # new). \<exists>t. ev = ListCall (query folder_id) t)"
      by auto
    then show ?thesis by blast
  qed
qed

text \<open>The first request of the loop carries the cursor that the loop starts with.\<close>

lemma list_pages_first_call:
  assumes ret: "list_pages service folder_id tok results calls = Some y"
  shows "\<exists>more. snd y = calls @ ListCall (query folder_id) tok # more"
proof -
  let ?c = "calls @ [ListCall (query folder_id) tok]"
  from ret consider "snd y = ?c"
    | t res where "list_pages service folder_id t res ?c = Some y"
    by (subst (asm) list_pages.simps) (auto simp: Let_def split: sum.splits if_splits)
  then show ?thesis
  proof cases
    case 1
    then show ?thesis by simp
  next
    case 2
    from list_pages_calls [OF 2] obtain new where "snd y = ?c @ new" by blast
    then show ?thesis by simp
  qed
qed

lemma list_pages_results:
  assumes ret: "list_pages service folder_id tok results calls = Some y"
    and ok: "\<And>r t. files_list service (query folder_id) t = Inr r \<Longrightarrow> \<forall>e \<in> set (page_items r). Q e"
    and start: "\<forall>e \<in> set results. Q e"
  shows "\<forall>res. fst y = Inr res \<longrightarrow> (\<forall>e \<in> set res. Q e)"
proof -
  have "(\<forall>r t. files_list service (query folder_id) t = Inr r \<longrightarrow> (\<forall>e \<in> set (page_items r). Q e))
      \<longrightarrow> (\<forall>e \<in> set results. Q e) \<longrightarrow> (\<forall>res. fst y = Inr res \<longrightarrow> (\<forall>e \<in> set res. Q e))"
  proof (rule list_pages.raw_induct
    [where P = "\<lambda>service folder_id tok results calls y.
       (\<forall>r t. files_list service (query folder_id) t = Inr r \<longrightarrow> (\<forall>e \<in> set (page_items r). Q e))
      \<longrightarrow> (\<forall>e \<in> set results. Q e) \<longrightarrow> (\<forall>res. fst y = Inr res \<longrightarrow> (\<forall>e \<in> set res. Q e))",
     OF _ ret])
    fix f service folder_id tok results calls y
    assume IH: "\<And>service folder_id tok results calls y. f service folder_id tok results calls = Some y \<Longrightarrow>
       (\<forall>r t. files_list service (query folder_id) t = Inr r \<longrightarrow> (\<forall>e \<in> set (page_items r). Q e))
      \<longrightarrow> (\<forall>e \<in> set results. Q e) \<longrightarrow> (\<forall>res. fst y = Inr res \<longrightarrow> (\<forall>e \<in> set res. Q e))"
    and eq: "(let calls' = calls @ [ListCall (query folder_id) tok] in
      case files_list service (query folder_id) tok of
        Inl error \<Rightarrow> Some (Inl error, calls')
      | Inr results_page \<Rightarrow>
          if page_files results_page = None \<and> nextPageToken results_page = None
          then Some (Inr results, calls')
          else
            let items = (case page_files results_page of None \<Rightarrow> [] | Some xs \<Rightarrow> xs) in
            if items = [] then Some (Inr results, calls')
            else
              let results' = results @ items;
                  page_token' = nextPageToken results_page
              in
              if page_token' = None \<or> page_token' = Some [] then Some (Inr results', calls')
              else f service folder_id page_token' results' calls') = Some y"
    show "(\<forall>r t. files_list service (query folder_id) t = Inr r \<longrightarrow> (\<forall>e \<in> set (page_items r). Q e))
      \<longrightarrow> (\<forall>e \<in> set results. Q e) \<longrightarrow> (\<forall>res. fst y = Inr res \<longrightarrow> (\<forall>e \<in> set res. Q e))"
    proof (intro impI)
      assume ok: "\<forall>r t. files_list service (query folder_id) t = Inr r \<longrightarrow> (\<forall>e \<in> set (page_items r). Q e)"
        and start: "\<forall>e \<in> set results. Q e"
      show "\<forall>res. fst y = Inr res \<longrightarrow> (\<forall>e \<in> set res. Q e)"
      proof (cases "files_list service (query folder_id) tok")
        case (Inl error)
        with eq show ?thesis by (auto simp: Let_def)
      next
        case (Inr r)
        with ok have items: "\<forall>e \<in> set (page_items r). Q e" by blast
        then have both: "\<forall>e \<in> set (results @ page_items r). Q e" using start by auto
        from eq Inr consider "fst y = Inr results" | "fst y = Inr (results @ page_items r)"
          | t calls' where "f service folder_id t (results @ page_items r) calls' = Some y"
          by (auto simp: Let_def page_items_def split: if_splits)
        then show ?thesis
        proof cases
          case 1
          with start show ?thesis by auto
        next
          case 2
          with both show ?thesis by auto
        next
          case 3
          from IH [OF 3] ok both show ?thesis by blast
        qed
      qed
    qed
  qed
  with ok start show ?thesis by blast
qed

subsection \<open>C3: the pages are concatenated in order\<close>

lemma concat_nonempty_pages:
  "\<forall>p \<in> set (butlast pages). p \<noteq> [] \<Longrightarrow> concat (takeWhile (\<lambda>p. p \<noteq> []) pages) = concat pages"
proof (induction pages)
  case Nil
  then show ?case by simp
next
  case (Cons p ps)
  then show ?case by (cases ps) auto
qed

lemmas listing_eval =
  list_files_in_folder_def list_pages.simps listing_only_def page_def last_page_def
  page_items_def Let_def

text \<open>
  What the loop returns for a paginated source: the concatenation, in page order and each
  page once, of the pages before the first empty page. This is the concatenation of all
  pages if no page but possibly the last is empty.
\<close>

lemma list_files_in_folder_concatenates:
  assumes "paginates service (query folder_id) None pages"
  shows "\<exists>w'. list_files_in_folder service folder_id w
            = Some (Inr (concat (takeWhile (\<lambda>p. p \<noteq> []) pages)), w')
     \<and> ((\<forall>p \<in> set (butlast pages). p \<noteq> [])
          \<longrightarrow> list_files_in_folder service folder_id w = Some (Inr (concat pages), w'))"
proof -
  from list_pages_paginates [OF assms, of "[]" "[]"] obtain new where
    "list_pages service folder_id None [] []
       = Some (Inr (concat (takeWhile (\<lambda>p. p \<noteq> []) pages)), new)"
    by auto
  then have "list_files_in_folder service folder_id w
       = Some (Inr (concat (takeWhile (\<lambda>p. p \<noteq> []) pages)), w\<lparr>trace := trace w @ new\<rparr>)"
    by (simp add: list_files_in_folder_def)
  then show ?thesis using concat_nonempty_pages [of pages] by auto
qed

lemma list_files_in_folder_two_pages:
  "paginates two_pages (query ''id-root'') None [[entry_a], [entry_b]]
   \<and> map_option fst (list_files_in_folder two_pages ''id-root'' empty_world)
       = Some (Inr [entry_a, entry_b])"
  by (simp add: two_pages_def listing_eval)

text \<open>
  C3 (the entries of all \<open>N\<close> pages are returned, the loop going on as long as a
  continuation cursor is returned) fails for the source with the three pages
  \<^verbatim>\<open>{files: [a], nextPageToken: 'p2'}\<close>, \<^verbatim>\<open>{files: [], nextPageToken: 'p3'}\<close> and
  \<^verbatim>\<open>{files: [b]}\<close>: the function returns \<^verbatim>\<open>[a]\<close> and makes two requests, so the third
  page is never asked for. \<^verbatim>\<open>if not items: break\<close> ends the loop at the empty page,
  before the cursor of that page is read; the docstring says "Lists all files and
  subfolders" and "Handles pagination".
\<close>

theorem list_files_in_folder_stops_at_empty_page:
  "paginates sparse_pages (query ''id-root'') None [[entry_a], [], [entry_b]]
   \<and> list_files_in_folder sparse_pages ''id-root'' empty_world
       = Some (Inr [entry_a],
               empty_world\<lparr>trace := [ListCall (query ''id-root'') None,
                                       ListCall (query ''id-root'') (Some ''p2'')]\<rparr>)
   \<and> [entry_a] \<noteq> concat [[entry_a], [], [entry_b]]"
  by (simp add: sparse_pages_def listing_eval empty_world_def)

subsection \<open>C5: an error during a listing request\<close>

text \<open>
  What the function does with an exception raised by a listing request, at the first
  page or after any number of pages. \<^verbatim>\<open>HttpError\<close> is caught: the function logs it and
  returns the empty list (the entries of the pages before are dropped). An exception of
  any other class leaves the function, with nothing logged.
\<close>

lemma list_files_in_folder_http_error:
  assumes "fails_after service (query folder_id) None pages (HttpError msg)"
  shows "\<exists>calls. list_files_in_folder service folder_id w
           = Some (Inr [], logging ERROR (''An error occurred: '' @ msg)
                             (w\<lparr>trace := trace w @ calls\<rparr>))
       \<and> length calls = Suc (length pages)"
proof -
  from list_pages_fails_after [OF assms, of "[]" "[]"] obtain new where
    "list_pages service folder_id None [] [] = Some (Inl (HttpError msg), new)"
    and "length new = Suc (length pages)"
    by auto
  then show ?thesis by (auto simp: list_files_in_folder_def)
qed

lemma list_files_in_folder_broken_pages:
  "fails_after broken_pages (query ''id-root'') None [[entry_a]]
     (HttpError ''500 Internal Server Error'')
   \<and> map_option fst (list_files_in_folder broken_pages ''id-root'' empty_world) = Some (Inr [])
   \<and> map_option (last \<circ> trace \<circ> snd) (list_files_in_folder broken_pages ''id-root'' empty_world)
       = Some (Log ERROR ''An error occurred: 500 Internal Server Error'')"
  by (simp add: broken_pages_def listing_eval)

lemma list_files_in_folder_other_exception:
  assumes "fails_after service (query folder_id) None pages (OtherException msg)"
  shows "\<exists>calls. list_files_in_folder service folder_id w
           = Some (Inl (OtherException msg), w\<lparr>trace := trace w @ calls\<rparr>)
       \<and> length calls = Suc (length pages)"
proof -
  from list_pages_fails_after [OF assms, of "[]" "[]"] obtain new where
    "list_pages service folder_id None [] [] = Some (Inl (OtherException msg), new)"
    and "length new = Suc (length pages)"
    by auto
  then show ?thesis by (auto simp: list_files_in_folder_def)
qed

text \<open>
  C5 (every remote-API error raised during a listing call is caught and logged, and the
  empty list is returned) fails for a request that raises
  \<^verbatim>\<open>ConnectionError('connection reset')\<close>: the exception leaves
  \<^verbatim>\<open>list_files_in_folder\<close>, which returns no list and logs nothing; the trace holds the
  request and no log record. The handler is \<^verbatim>\<open>except HttpError\<close>, while the docstring
  says "Returns an empty list on error" and the comment at the handler "Return empty list
  on error to avoid crashing"; \<^verbatim>\<open>download_file\<close> has the handler
  \<^verbatim>\<open>except Exception\<close> that is missing here.
\<close>

theorem list_files_in_folder_propagates:
  "list_files_in_folder dropped_connection ''id-root'' empty_world
     = Some (Inl (OtherException ''connection reset''),
             empty_world\<lparr>trace := [ListCall (query ''id-root'') None]\<rparr>)"
  by (simp add: dropped_connection_def listing_eval empty_world_def)

subsection \<open>The query\<close>

lemma suffix_query: "suffix ''trashed=false'' (query folder_id)"
proof -
  have "query folder_id = ([CHR 0x27] @ folder_id @ [CHR 0x27] @ '' in parents and '') @ ''trashed=false''"
    by (simp add: query_def)
  then show ?thesis unfolding suffix_def by blast
qed

section \<open>Properties of the walk\<close>

subsection \<open>The loop body, case by case\<close>

lemma process_files_Nil: "process_files pf service [] download_path parent w = Some (None, w)"
  by (subst process_files.simps) simp

lemma process_files_skip:
  assumes "\<not> fst (enter_directory pf download_path parent w)"
  shows "process_files pf service (e # rest) download_path parent w
     = process_files pf service rest download_path parent
         (snd (enter_directory pf download_path parent w))"
  using assms by (subst process_files.simps) (simp add: Let_def)

lemma process_files_file:
  assumes "fst (enter_directory pf download_path parent w)"
    and "entry_mimeType e \<noteq> folder_mime"
  shows "process_files pf service (e # rest) download_path parent w
     = process_files pf service rest download_path parent
         (download_file pf service (entry_id e) (entry_name e)
            (current_download_path download_path parent)
            (snd (enter_directory pf download_path parent w)))"
  using assms by (subst process_files.simps) (simp add: Let_def)

lemma process_files_folder:
  assumes "fst (enter_directory pf download_path parent w)"
    and "entry_mimeType e = folder_mime"
  shows "process_files pf service (e # rest) download_path parent w
     = (case list_files_in_folder service (entry_id e)
               (processing_folder e (snd (enter_directory pf download_path parent w))) of
          None \<Rightarrow> None
        | Some listed \<Rightarrow>
            (case fst listed of
               Inl ex \<Rightarrow> Some (Some ex, snd listed)
             | Inr sub_files \<Rightarrow>
                 if sub_files \<noteq> []
                 then Option.bind
                        (process_files pf service sub_files download_path
                           (subfolder_name parent (entry_name e)) (snd listed))
                        (go_on (process_files pf service rest download_path parent))
                 else process_files pf service rest download_path parent
                        (logging INFO (''Folder '' @ entry_name e @ '' is empty.'')
                           (snd listed))))"
  using assms unfolding go_on_def [abs_def]
  by (subst process_files.simps) (simp add: Let_def processing_folder_def)

subsection \<open>Listings, composition, termination\<close>

lemma list_files_in_folder_listing:
  "listing service folder_id = Some found \<Longrightarrow>
   \<exists>w'. list_files_in_folder service folder_id w = Some (found, w')"
  by (auto simp: listing_def list_files_in_folder_def split: option.splits sum.splits exn.splits)

lemma listing_list_files_in_folder:
  "list_files_in_folder service folder_id w = Some (found, w') \<Longrightarrow>
   listing service folder_id = Some found"
  by (auto simp: listing_def list_files_in_folder_def split: option.splits sum.splits exn.splits)

lemma go_on_returned [simp]: "go_on f (None, w) = f w"
  by (simp add: go_on_def)

lemma go_on_raised [simp]: "go_on f (Some ex, w) = Some (Some ex, w)"
  by (simp add: go_on_def)

lemma go_on_Nil: "go_on (process_files pf service [] download_path parent) walked = Some walked"
  by (cases walked) (auto simp: go_on_def process_files_Nil)

lemma go_on_bind:
  "Option.bind (go_on f walked) (go_on g) = go_on (\<lambda>w. Option.bind (f w) (go_on g)) walked"
  by (cases walked) (auto simp: go_on_def)

lemma bind_go_on_Nil:
  "Option.bind r (go_on (process_files pf service [] download_path parent)) = r"
  by (cases r) (simp_all add: go_on_Nil)

lemma process_files_Cons_bind:
  "process_files pf service (e # rest) download_path parent w =
     Option.bind (process_files pf service [e] download_path parent w)
       (go_on (process_files pf service rest download_path parent))"
proof (cases "fst (enter_directory pf download_path parent w)")
  case False
  then show ?thesis by (simp add: process_files_skip process_files_Nil)
next
  case True
  show ?thesis
  proof (cases "entry_mimeType e = folder_mime")
    case False
    with True show ?thesis by (simp add: process_files_file process_files_Nil)
  next
    case folder: True
    show ?thesis
      unfolding process_files_folder [OF True folder]
      by (simp add: process_files_Nil bind_go_on_Nil split: option.splits sum.splits)
  qed
qed

lemma process_files_append:
  "process_files pf service (xs @ ys) download_path parent w =
     Option.bind (process_files pf service xs download_path parent w)
       (go_on (process_files pf service ys download_path parent))"
proof (induction xs arbitrary: w)
  case Nil
  then show ?case by (simp add: process_files_Nil)
next
  case (Cons x xs)
  have tail_eq: "process_files pf service (xs @ ys) download_path parent
      = (\<lambda>w'. Option.bind (process_files pf service xs download_path parent w')
                  (go_on (process_files pf service ys download_path parent)))"
    by (rule ext) (rule Cons.IH)
  have "process_files pf service ((x # xs) @ ys) download_path parent w
      = Option.bind (process_files pf service [x] download_path parent w)
          (go_on (process_files pf service (xs @ ys) download_path parent))"
    unfolding append_Cons by (rule process_files_Cons_bind)
  also have "\<dots> = Option.bind (process_files pf service [x] download_path parent w)
          (go_on (\<lambda>w'. Option.bind (process_files pf service xs download_path parent w')
                  (go_on (process_files pf service ys download_path parent))))"
    by (simp only: tail_eq)
  also have "\<dots> = Option.bind
          (Option.bind (process_files pf service [x] download_path parent w)
             (go_on (process_files pf service xs download_path parent)))
          (go_on (process_files pf service ys download_path parent))"
    by (simp add: go_on_bind)
  also have "\<dots> = Option.bind (process_files pf service (x # xs) download_path parent w)
          (go_on (process_files pf service ys download_path parent))"
    by (simp add: process_files_Cons_bind [of pf service x xs, symmetric])
  finally show ?case .
qed

lemma process_files_returns:
  "finite_tree service files \<Longrightarrow>
   \<exists>w'. process_files pf service files download_path parent w = Some (None, w')"
proof (induction files arbitrary: parent w rule: finite_tree.induct)
  case Nil
  then show ?case by (simp add: process_files_Nil)
next
  case (File e rest)
  then show ?case
    by (cases "fst (enter_directory pf download_path parent w)")
      (simp_all add: process_files_skip process_files_file)
next
  case (Folder e sub rest)
  show ?case
  proof (cases "fst (enter_directory pf download_path parent w)")
    case False
    with Folder.IH(2) show ?thesis by (simp add: process_files_skip)
  next
    case True
    from Folder.hyps(2) obtain w2 where
      "list_files_in_folder service (entry_id e)
         (processing_folder e (snd (enter_directory pf download_path parent w)))
       = Some (Inr sub, w2)"
      using list_files_in_folder_listing by blast
    moreover from Folder.IH(1) obtain w3 where
      "process_files pf service sub download_path (subfolder_name parent (entry_name e)) w2
         = Some (None, w3)"
      by blast
    ultimately show ?thesis
      using Folder.IH(2) Folder.hyps(1)
      by (simp add: process_files_folder [OF True])
  qed
qed

section \<open>Properties of a whole run\<close>

subsection \<open>What the stages before the walk leave unchanged\<close>

lemma list_files_in_folder_frame:
  assumes "list_files_in_folder service folder_id w = Some (found, w')"
  shows "fs_dirs w' = fs_dirs w \<and> fs_files w' = fs_files w"
  using assms
  by (auto simp: list_files_in_folder_def split: option.splits sum.splits exn.splits)

lemma save_token_frame:
  assumes "fs_files w token_path \<noteq> None"
  shows "fs_dirs (save_token pf token_path c w) = fs_dirs w
    \<and> dom (fs_files (save_token pf token_path c w)) = dom (fs_files w)
    \<and> (\<forall>p. p \<noteq> token_path \<longrightarrow> fs_files (save_token pf token_path c w) p = fs_files w p)"
  using assms by (auto simp: save_token_def Let_def split: option.splits)

lemma get_credentials_interactive_frame:
  "fs_dirs (snd (get_credentials_interactive pf token_path w)) = fs_dirs w
    \<and> dom (fs_files (snd (get_credentials_interactive pf token_path w))) = dom (fs_files w)
    \<and> (\<forall>p. p \<noteq> token_path \<longrightarrow>
          fs_files (snd (get_credentials_interactive pf token_path w)) p = fs_files w p)"
proof (cases "path_exists w token_path")
  case False
  then show ?thesis by (simp add: get_credentials_interactive_def)
next
  case True
  show ?thesis
  proof (cases "fs_files w token_path")
    case None
    with True show ?thesis
      by (simp add: get_credentials_interactive_def read_text_def and_then_def)
  next
    case (Some content)
    then have "fs_files w token_path \<noteq> None" by simp
    from save_token_frame [OF this] True Some show ?thesis
      by (simp add: get_credentials_interactive_def read_text_def and_then_def
          split: sum.splits)
  qed
qed

lemma get_service_account_credentials_frame:
  "snd (get_service_account_credentials pf filename w) = w
   \<or> (\<exists>m. snd (get_service_account_credentials pf filename w) = logging ERROR m w)"
  by (auto simp: get_service_account_credentials_def split: sum.splits)

lemma get_credentials_frame:
  "fs_dirs (snd (get_credentials pf use_service_account service_account_file token_path w))
     = fs_dirs w
   \<and> dom (fs_files (snd (get_credentials pf use_service_account service_account_file
                             token_path w))) = dom (fs_files w)
   \<and> (\<forall>p. p \<noteq> token_path \<longrightarrow>
         fs_files (snd (get_credentials pf use_service_account service_account_file
                          token_path w)) p = fs_files w p)"
proof (cases use_service_account)
  case False
  then show ?thesis
    using get_credentials_interactive_frame [of pf token_path w]
    by (simp add: get_credentials_def)
next
  case True
  let ?r = "get_service_account_credentials pf service_account_file w"
  have fs: "fs_dirs (snd ?r) = fs_dirs w \<and> fs_files (snd ?r) = fs_files w"
    using get_service_account_credentials_frame [of pf service_account_file w] by auto
  show ?thesis
  proof (cases "fst ?r")
    case (Some c)
    with True fs show ?thesis by (simp add: get_credentials_def Let_def)
  next
    case None
    let ?w1 = "logging WARNING
      ''Failed to load service account credentials.  Falling back to user authentication.''
      (snd ?r)"
    from get_credentials_interactive_frame [of pf token_path ?w1] fs True None
    show ?thesis by (simp add: get_credentials_def Let_def)
  qed
qed

lemma create_service_frame:
  "fs_dirs (snd (create_service pf c w)) = fs_dirs w
   \<and> fs_files (snd (create_service pf c w)) = fs_files w"
  by (simp add: create_service_def split: sum.splits)

lemma create_service_build:
  "build pf c = Inr service \<Longrightarrow> fst (create_service pf c w) = Some service"
  by (simp add: create_service_def)

lemma get_shared_folder_id_truthy:
  "get_shared_folder_id x = Inr (Some r) \<Longrightarrow> truthy x"
  by (auto simp: get_shared_folder_id_def split: if_splits)

subsection \<open>The faulty tree\<close>

lemma share_url_id: "get_shared_folder_id (PyStr share_url) = Inr (Some ''id-root'')"
  by (simp add: share_url_def parser_defs)

lemma demo_credentials:
  "fst (get_credentials (quiet_platform s) True ''service_account.json'' ''token.json'' demo_world)
     = Some demo_creds"
  by (simp add: get_credentials_def get_service_account_credentials_def path_exists_def
      read_text_def and_then_def quiet_platform_def demo_world_def Let_def)

lemma denying_credentials:
  "fst (get_credentials denying_platform True ''service_account.json'' ''token.json'' demo_world)
     = Some demo_creds"
  by (simp add: get_credentials_def get_service_account_credentials_def path_exists_def
      read_text_def and_then_def quiet_platform_def denying_platform_def demo_world_def Let_def)

lemmas faulty_eval =
  listing_def list_pages.simps faulty_service_def last_page_def query_def Let_def

lemma faulty_root:
  "listing faulty_service ''id-root'' = Some (Inr [entry_bad, entry_locked, entry_sub, entry_a])"
  by (simp add: faulty_eval)

lemma faulty_locked: "listing faulty_service ''id-locked'' = Some (Inr [])"
  by (simp add: faulty_eval)

lemma faulty_sub: "listing faulty_service ''id-sub'' = Some (Inr [entry_b])"
  by (simp add: faulty_eval)

lemma faulty_finite:
  "finite_tree faulty_service [entry_bad, entry_locked, entry_sub, entry_a]"
proof -
  have files: "entry_mimeType entry_bad \<noteq> folder_mime" "entry_mimeType entry_a \<noteq> folder_mime"
    "entry_mimeType entry_b \<noteq> folder_mime"
    by (simp_all add: entry_bad_def entry_a_def entry_b_def folder_mime_def)
  have folders: "entry_mimeType entry_locked = folder_mime" "entry_mimeType entry_sub = folder_mime"
    by (simp_all add: entry_locked_def entry_sub_def)
  have ids: "entry_id entry_locked = ''id-locked''" "entry_id entry_sub = ''id-sub''"
    by (simp_all add: entry_locked_def entry_sub_def)
  have a: "finite_tree faulty_service [entry_a]"
    by (intro finite_tree.File finite_tree.Nil files)
  have b: "finite_tree faulty_service [entry_b]"
    by (intro finite_tree.File finite_tree.Nil files)
  have sub: "finite_tree faulty_service [entry_sub, entry_a]"
    by (rule finite_tree.Folder [OF folders(2) _ b a]) (simp add: ids faulty_sub)
  have locked: "finite_tree faulty_service [entry_locked, entry_sub, entry_a]"
    by (rule finite_tree.Folder [OF folders(1) _ finite_tree.Nil sub]) (simp add: ids faulty_locked)
  show ?thesis
    by (rule finite_tree.File [OF files(1) locked])
qed



text \<open>
  The run on the faulty tree, evaluated: one download fails, one listing fails, the
  directory for \<^verbatim>\<open>sub\<close> cannot be created; the error records are there, the last
  sibling is downloaded, and the result is \<^verbatim>\<open>True\<close>.
\<close>

lemma faulty_walk:
  "map_option (\<lambda>(r, w). (r, fs_files w ''dest/a.txt'', fs_files w ''dest/sub/b.txt''))
     (process_files denying_platform faulty_service
        [entry_bad, entry_locked, entry_sub, entry_a] ''dest'' [] demo_world)
   = Some (None, Some ''data:id-a'', None)"
  by (simp add: denying_platform_def quiet_platform_def
      list_files_in_folder_def list_pages.simps faulty_service_def last_page_def query_def Let_def
      process_files.simps enter_directory_def current_download_path_def subfolder_name_def
      create_directory_def download_file_def download_failed_def path_exists_def path_join_def
      logging_def emit_def folder_mime_def
      entry_a_def entry_b_def entry_bad_def entry_locked_def entry_sub_def
      demo_world_def)

lemma faulty_run:
  "map_option (\<lambda>(r, w). (r, filter (\<lambda>ev. case ev of Log ERROR m \<Rightarrow> True | _ \<Rightarrow> False) (trace w),
                          fs_files w ''dest/a.txt''))
     (download_files_from_shared_link denying_platform (PyStr share_url) ''dest'' True
        ''service_account.json'' ''token.json'' demo_world)
   = Some (Inr True,
       [Log ERROR ''An error occurred during download of bad.txt: 404 Not Found'',
        Log ERROR ''An error occurred: 403 Forbidden'',
        Log ERROR ''Failed to create directory dest/sub: [Errno 13] Permission denied''],
       Some ''data:id-a'')"
proof -
  have u: "share_url \<noteq> []" by (simp add: share_url_def)
  show ?thesis
  by (simp add: download_files_from_shared_link_def share_url_id u
      create_service_def denying_platform_def quiet_platform_def
      list_files_in_folder_def list_pages.simps faulty_service_def last_page_def query_def Let_def
      process_files.simps enter_directory_def current_download_path_def subfolder_name_def
      create_directory_def download_file_def download_failed_def path_exists_def path_join_def
      logging_def emit_def folder_mime_def
      entry_a_def entry_b_def entry_bad_def entry_locked_def entry_sub_def
      get_credentials_def get_service_account_credentials_def read_text_def and_then_def
      demo_world_def demo_creds_def)
qed

subsection \<open>C4: the result of a run that reaches the walk\<close>

text \<open>
  A run that reaches the traversal stage (a folder identifier that is not empty, a
  download path that is not empty, credentials, a service, a root listing that is not
  empty) returns \<^verbatim>\<open>True\<close> if every folder on the way can be listed, whatever download
  or directory creation fails and whichever listing request raises \<^verbatim>\<open>HttpError\<close>: the
  service and the machine are arbitrary.
\<close>

lemma download_files_from_shared_link_returns_True:
  assumes "get_shared_folder_id shared_url = Inr (Some folder_id)" and "folder_id \<noteq> []"
    and "download_path \<noteq> []"
    and "fst (get_credentials pf use_service_account service_account_file token_path w)
           = Some credentials"
    and "build pf credentials = Inr service"
    and "listing service folder_id = Some (Inr files)" and "files \<noteq> []"
    and "finite_tree service files"
  shows "\<exists>w'. download_files_from_shared_link pf shared_url download_path use_service_account
                service_account_file token_path w = Some (Inr True, w')"
proof -
  let ?got = "get_credentials pf use_service_account service_account_file token_path w"
  let ?made = "create_service pf credentials (snd ?got)"
  from assms(6) obtain w3 where
    lst: "list_files_in_folder service folder_id (snd ?made) = Some (Inr files, w3)"
    using list_files_in_folder_listing by blast
  from process_files_returns [OF assms(8)] obtain w4 where
    walk: "process_files pf service files download_path [] w3 = Some (None, w4)"
    by blast
  have "download_files_from_shared_link pf shared_url download_path use_service_account
       service_account_file token_path w = Some (Inr True, w4)"
    using assms(1-4,7) get_shared_folder_id_truthy [OF assms(1)]
      create_service_build [OF assms(5), of "snd ?got"] lst walk
    by (simp add: download_files_from_shared_link_def Let_def)
  then show ?thesis by blast
qed

text \<open>
  C4 (a run that reaches the traversal stage returns \<^verbatim>\<open>True\<close> whatever download,
  directory creation or subfolder listing fails during the walk) fails for the tree
  \<^verbatim>\<open>root/{a.txt, sub/}\<close> when the listing request for \<^verbatim>\<open>sub\<close> raises
  \<^verbatim>\<open>ConnectionError('connection reset')\<close>: the root is listed, \<^verbatim>\<open>a.txt\<close> is
  downloaded, and then the exception leaves \<^verbatim>\<open>list_files_in_folder\<close>,
  \<^verbatim>\<open>process_files\<close> and \<^verbatim>\<open>download_files_from_shared_link\<close>, none of which has a
  handler for it; no boolean is returned. The cause is the handler of
  \<^verbatim>\<open>list_files_in_folder\<close>, which is \<^verbatim>\<open>except HttpError\<close> where its docstring says
  "Returns an empty list on error".
\<close>

theorem download_files_from_shared_link_raises:
  "map_option (\<lambda>(r, w). (r, fs_files w ''dest/a.txt'',
                          filter (\<lambda>ev. case ev of ListCall q t \<Rightarrow> True | _ \<Rightarrow> False) (trace w)))
     (download_files_from_shared_link (quiet_platform dropping_service) (PyStr share_url)
        ''dest'' True ''service_account.json'' ''token.json'' demo_world)
   = Some (Inl (Inr (OtherException ''connection reset'')),
       Some ''data:id-a'',
       [ListCall (query ''id-root'') None, ListCall (query ''id-sub'') None])"
proof -
  have u: "share_url \<noteq> []" by (simp add: share_url_def)
  have q: "query ''id-sub'' \<noteq> query ''id-root''" by (simp add: query_def)
  show ?thesis
  by (simp add: download_files_from_shared_link_def share_url_id u q
      create_service_def quiet_platform_def
      list_files_in_folder_def list_pages.simps dropping_service_def last_page_def Let_def
      process_files.simps enter_directory_def current_download_path_def subfolder_name_def
      download_file_def path_exists_def path_join_def
      logging_def emit_def folder_mime_def
      entry_a_def entry_sub_def
      get_credentials_def get_service_account_credentials_def read_text_def and_then_def
      demo_world_def demo_creds_def)
qed

subsection \<open>C7: an empty root folder\<close>

text \<open>
  C7. Every run whose root listing is empty returns \<^verbatim>\<open>True\<close> and creates no file and
  no directory: the directories are those from before, and so are the files and their
  contents, but for the token file, which exists already and is rewritten when the
  credentials had to be refreshed.
\<close>

theorem download_files_from_shared_link_empty_root:
  assumes "get_shared_folder_id shared_url = Inr (Some folder_id)" and "folder_id \<noteq> []"
    and "download_path \<noteq> []"
    and "fst (get_credentials pf use_service_account service_account_file token_path w)
           = Some credentials"
    and "build pf credentials = Inr service"
    and "listing service folder_id = Some (Inr [])"
  shows "\<exists>w'. download_files_from_shared_link pf shared_url download_path use_service_account
                service_account_file token_path w = Some (Inr True, w')
      \<and> fs_dirs w' = fs_dirs w
      \<and> dom (fs_files w') = dom (fs_files w)
      \<and> (\<forall>p. p \<noteq> token_path \<longrightarrow> fs_files w' p = fs_files w p)"
proof -
  let ?got = "get_credentials pf use_service_account service_account_file token_path w"
  let ?made = "create_service pf credentials (snd ?got)"
  from assms(6) obtain w3 where
    lst: "list_files_in_folder service folder_id (snd ?made) = Some (Inr [], w3)"
    using list_files_in_folder_listing by blast
  let ?w' = "logging WARNING
     ''No files found in the shared folder or error accessing folder.'' w3"
  have run: "download_files_from_shared_link pf shared_url download_path use_service_account
       service_account_file token_path w = Some (Inr True, ?w')"
    using assms(1-4) get_shared_folder_id_truthy [OF assms(1)]
      create_service_build [OF assms(5), of "snd ?got"] lst
    by (simp add: download_files_from_shared_link_def Let_def)
  have "fs_dirs w3 = fs_dirs (snd ?made) \<and> fs_files w3 = fs_files (snd ?made)"
    using list_files_in_folder_frame [OF lst] .
  with create_service_frame [of pf credentials "snd ?got"]
    get_credentials_frame [of pf use_service_account service_account_file token_path w]
  have "fs_dirs ?w' = fs_dirs w \<and> dom (fs_files ?w') = dom (fs_files w)
      \<and> (\<forall>p. p \<noteq> token_path \<longrightarrow> fs_files ?w' p = fs_files w p)"
    by simp
  with run show ?thesis by blast
qed

theorem download_files_from_shared_link_empty_root_witness:
  "listing empty_folder ''id-root'' = Some (Inr [])
   \<and> (\<exists>w'. download_files_from_shared_link (quiet_platform empty_folder) (PyStr share_url)
              ''dest'' True ''service_account.json'' ''token.json'' demo_world
            = Some (Inr True, w')
          \<and> fs_dirs w' = {''dest''}
          \<and> dom (fs_files w') = {''service_account.json''})"
proof -
  have l: "listing empty_folder ''id-root'' = Some (Inr [])"
    by (simp add: listing_def list_pages.simps empty_folder_def listing_only_def last_page_def
        Let_def)
  have b: "build (quiet_platform empty_folder) demo_creds = Inr empty_folder"
    by (simp add: quiet_platform_def)
  from download_files_from_shared_link_empty_root [OF share_url_id _ _ demo_credentials b l, of "''dest''"] l
  show ?thesis by (auto simp: demo_world_def)
qed

section \<open>Properties of the trace\<close>

lemma extends_refl: "extends P w w"
  by (simp add: extends_def)

lemma extends_trans: "extends P w w1 \<Longrightarrow> extends P w1 w2 \<Longrightarrow> extends P w w2"
  by (auto simp: extends_def)

lemma extends_mono: "extends P w w' \<Longrightarrow> (\<And>ev. P ev \<Longrightarrow> Q ev) \<Longrightarrow> extends Q w w'"
  by (auto simp: extends_def)

lemma extends_emit: "P e \<Longrightarrow> extends P w (emit e w)"
  by (simp add: extends_def)

lemma extends_logging: "P (Log l m) \<Longrightarrow> extends P w (logging l m w)"
  by (simp add: extends_def)

lemma extends_count:
  "extends P w w' \<Longrightarrow> \<not> P e \<Longrightarrow> count_list (trace w') e = count_list (trace w) e"
proof -
  assume "extends P w w'" and "\<not> P e"
  then obtain evs where "trace w' = trace w @ evs" and "e \<notin> set evs"
    by (auto simp: extends_def)
  then show ?thesis by (simp add: count_list_0_iff)
qed

lemma download_file_extends:
  "extends (\<lambda>ev. ev = GetCall i \<or> ev = MediaCall i \<or> (\<exists>p. ev = OpenWrite p) \<or> (\<exists>l m. ev = Log l m))
     w (download_file pf service i n dp w)"
  by (auto simp: extends_def download_file_def download_failed_def Let_def
      split: sum.splits option.splits exn.splits)

lemma download_file_dirs: "fs_dirs (download_file pf service i n dp w) = fs_dirs w"
  by (auto simp: download_file_def download_failed_def Let_def
      split: sum.splits option.splits exn.splits)

lemma download_file_ok:
  assumes "files_get service i = Inr m" and "m \<noteq> folder_mime"
    and "\<forall>w p. open_error pf w p = None"
    and "files_get_media service i = \<lparr>chunks = c, failure = None\<rparr>"
  shows "fs_files (download_file pf service i n dp w) = (fs_files w)(path_join dp n \<mapsto> concat c)"
  using assms by (simp add: download_file_def Let_def)

lemma enter_directory_extends:
  "extends (\<lambda>ev. (\<exists>p. ev = Makedirs p) \<or> (\<exists>l m. ev = Log l m))
     w (snd (enter_directory pf dp parent w))"
  by (auto simp: extends_def enter_directory_def create_directory_def Let_def
      split: option.splits)

lemma list_files_in_folder_extends:
  assumes "list_files_in_folder service folder_id w = Some (found, w')"
  shows "extends (\<lambda>ev. (\<exists>t. ev = ListCall (query folder_id) t) \<or> (\<exists>l m. ev = Log l m)) w w'"
proof -
  from assms obtain y where y: "list_pages service folder_id None [] [] = Some y"
    by (auto simp: list_files_in_folder_def split: option.splits)
  from list_pages_calls [OF y]
  have "\<forall>ev \<in> set (snd y). \<exists>t. ev = ListCall (query folder_id) t" by auto
  with assms y show ?thesis
    by (cases y) (auto simp: extends_def list_files_in_folder_def
        split: sum.splits exn.splits)
qed

lemma listing_untrashed:
  assumes "listing service folder_id = Some (Inr found)" and "honours_filter service trashed"
  shows "\<forall>e \<in> set found. \<not> trashed e"
proof -
  from assms(1) obtain y where y: "list_pages service folder_id None [] [] = Some y"
    by (auto simp: listing_def split: option.splits)
  have ok: "\<And>r t. files_list service (query folder_id) t = Inr r
      \<Longrightarrow> \<forall>e \<in> set (page_items r). \<not> trashed e"
    using assms(2) suffix_query unfolding honours_filter_def by blast
  from list_pages_results [OF y, of "\<lambda>e. \<not> trashed e"] ok
  have "\<forall>res. fst y = Inr res \<longrightarrow> (\<forall>e \<in> set res. \<not> trashed e)" by simp
  with assms(1) y show ?thesis
    by (cases y) (auto simp: listing_def split: sum.splits exn.splits)
qed

lemma process_files_untrashed:
  assumes "finite_tree service files" and "honours_filter service trashed"
    and "\<forall>e \<in> set files. \<not> trashed e"
  shows "\<exists>w'. process_files pf service files download_path parent w = Some (None, w')
     \<and> extends (untrashed_request trashed) w w'"
  using assms(1,3)
proof (induction files arbitrary: parent w rule: finite_tree.induct)
  case Nil
  then show ?case by (simp add: process_files_Nil extends_refl)
next
  case (File e rest)
  let ?w1 = "snd (enter_directory pf download_path parent w)"
  have ent: "extends (untrashed_request trashed) w ?w1"
    by (rule extends_mono [OF enter_directory_extends]) (auto simp: untrashed_request_def)
  from File.prems have e: "\<not> trashed e" and rest: "\<forall>x \<in> set rest. \<not> trashed x" by auto
  show ?case
  proof (cases "fst (enter_directory pf download_path parent w)")
    case False
    from File.IH [OF rest, of parent ?w1] ent False show ?thesis
      by (auto simp: process_files_skip intro: extends_trans)
  next
    case True
    let ?w2 = "download_file pf service (entry_id e) (entry_name e)
                 (current_download_path download_path parent) ?w1"
    have "extends (untrashed_request trashed) ?w1 ?w2"
      by (rule extends_mono [OF download_file_extends])
        (use e in \<open>auto simp: untrashed_request_def\<close>)
    with ent have "extends (untrashed_request trashed) w ?w2" by (rule extends_trans)
    with File.IH [OF rest, of parent ?w2] True File.hyps(1) show ?thesis
      by (auto simp: process_files_file intro: extends_trans)
  qed
next
  case (Folder e sub rest)
  let ?w1 = "snd (enter_directory pf download_path parent w)"
  have ent: "extends (untrashed_request trashed) w ?w1"
    by (rule extends_mono [OF enter_directory_extends]) (auto simp: untrashed_request_def)
  from Folder.prems have e: "\<not> trashed e" and rest: "\<forall>x \<in> set rest. \<not> trashed x" by auto
  show ?case
  proof (cases "fst (enter_directory pf download_path parent w)")
    case False
    from Folder.IH(2) [OF rest, of parent ?w1] ent False show ?thesis
      by (auto simp: process_files_skip intro: extends_trans)
  next
    case True
    from Folder.hyps(2) obtain w2 where
      lst: "list_files_in_folder service (entry_id e) (processing_folder e ?w1)
              = Some (Inr sub, w2)"
      using list_files_in_folder_listing by blast
    have "extends (untrashed_request trashed) ?w1 (processing_folder e ?w1)"
      unfolding processing_folder_def
      by (rule extends_logging) (simp add: untrashed_request_def)
    moreover have "extends (untrashed_request trashed) (processing_folder e ?w1) w2"
      by (rule extends_mono [OF list_files_in_folder_extends [OF lst]])
        (use e in \<open>auto simp: untrashed_request_def\<close>)
    ultimately have w2: "extends (untrashed_request trashed) w w2"
      using ent by (blast intro: extends_trans)
    have sub: "\<forall>x \<in> set sub. \<not> trashed x"
      using listing_untrashed [OF Folder.hyps(2) assms(2)] .
    show ?thesis
    proof (cases "sub = []")
      case True
      let ?w3 = "logging INFO (''Folder '' @ entry_name e @ '' is empty.'') w2"
      have "extends (untrashed_request trashed) w2 ?w3"
        by (rule extends_logging) (simp add: untrashed_request_def)
      with w2 have "extends (untrashed_request trashed) w ?w3" by (rule extends_trans)
      with Folder.IH(2) [OF rest, of parent ?w3] lst True \<open>fst (enter_directory pf download_path parent w)\<close>
        Folder.hyps(1)
      show ?thesis
        by (auto simp: process_files_folder intro: extends_trans)
    next
      case False
      from Folder.IH(1) [OF sub, of "subfolder_name parent (entry_name e)" w2] obtain w3 where
        w3: "process_files pf service sub download_path (subfolder_name parent (entry_name e)) w2
               = Some (None, w3)"
        and "extends (untrashed_request trashed) w2 w3"
        by blast
      with w2 have "extends (untrashed_request trashed) w w3" by (blast intro: extends_trans)
      with Folder.IH(2) [OF rest, of parent w3] lst w3 False True Folder.hyps(1)
      show ?thesis
        by (auto simp: process_files_folder intro: extends_trans)
    qed
  qed
qed

section \<open>C6: a failure does not end the loop\<close>

subsection \<open>The first event of each part of the loop body\<close>

lemma enter_directory_trace:
  "\<exists>pre. trace (snd (enter_directory pf download_path parent w)) = trace w @ pre"
  using enter_directory_extends [of w pf download_path parent] by (auto simp: extends_def)

lemma enter_directory_refused:
  assumes "\<not> fst (enter_directory pf download_path parent w)"
  shows "\<exists>pre h. trace (snd (enter_directory pf download_path parent w)) = trace w @ pre
     \<and> h \<in> set pre \<and> handled download_path parent e h"
proof -
  let ?dir = "current_download_path download_path parent"
  from assms have p: "parent \<noteq> []"
    and c: "enter_directory pf download_path parent w = create_directory pf ?dir w"
    by (auto simp: enter_directory_def split: if_splits)
  from assms c obtain m where "makedirs_error pf w ?dir = Some m"
    by (cases "makedirs_error pf w ?dir") (auto simp: create_directory_def Let_def)
  with c have "trace (snd (enter_directory pf download_path parent w))
      = trace w @ [Makedirs ?dir, Log ERROR (''Failed to create directory '' @ ?dir @ '': '' @ m)]"
    by (simp add: create_directory_def Let_def)
  moreover have "handled download_path parent e
      (Log ERROR (''Failed to create directory '' @ ?dir @ '': '' @ m))"
    using p unfolding handled_def by blast
  ultimately show ?thesis by fastforce
qed

lemma download_file_first:
  "\<exists>more. trace (download_file pf service i n dp w) = trace w @ GetCall i # more"
  by (auto simp: download_file_def download_failed_def Let_def
      split: sum.splits option.splits exn.splits)

lemma list_files_in_folder_first:
  assumes "list_files_in_folder service folder_id w = Some (r, w')"
  shows "\<exists>more. trace w' = trace w @ ListCall (query folder_id) None # more"
proof -
  from assms obtain y where y: "list_pages service folder_id None [] [] = Some y"
    by (auto simp: list_files_in_folder_def split: option.splits)
  from list_pages_first_call [OF y] obtain more where
    "snd y = ListCall (query folder_id) None # more" by auto
  with assms y show ?thesis
    by (cases y) (auto simp: list_files_in_folder_def split: sum.splits exn.splits)
qed

lemma process_files_trace:
  assumes "finite_tree service files"
  shows "\<exists>w' evs. process_files pf service files download_path parent w = Some (None, w')
     \<and> trace w' = trace w @ evs"
proof -
  have "honours_filter service (\<lambda>e. False)" by (simp add: honours_filter_def)
  from process_files_untrashed [OF assms this, of pf download_path parent w]
  show ?thesis by (auto simp: extends_def)
qed

lemma handled_step:
  assumes "trace w1 = trace w @ pre" and "h \<in> set pre" and "handled dp parent e h"
    and "trace w' = trace w1 @ evs" and "subseq hs evs" and "list_all2 (handled dp parent) rest hs"
  shows "\<exists>evs' hs'. trace w' = trace w @ evs' \<and> subseq hs' evs'
     \<and> list_all2 (handled dp parent) (e # rest) hs'"
proof -
  from assms(2) have "subseq [h] pre" by (simp add: subseq_singleton_left)
  from this assms(5) have "subseq ([h] @ hs) (pre @ evs)" by (rule list_emb_append_mono)
  moreover from assms(1,4) have "trace w' = trace w @ (pre @ evs)" by simp
  moreover from assms(3,6) have "list_all2 (handled dp parent) (e # rest) ([h] @ hs)" by simp
  ultimately show ?thesis by blast
qed

subsection \<open>Every entry of the list is handled\<close>

lemma process_files_handles:
  assumes "finite_tree service files"
  shows "\<exists>w' evs hs. process_files pf service files download_path parent w = Some (None, w')
     \<and> trace w' = trace w @ evs \<and> subseq hs evs
     \<and> list_all2 (handled download_path parent) files hs"
  using assms
proof (induction files arbitrary: parent w rule: finite_tree.induct)
  case Nil
  have "process_files pf service [] download_path parent w = Some (None, w)
     \<and> trace w = trace w @ [] \<and> subseq [] [] \<and> list_all2 (handled download_path parent) [] []"
    by (simp add: process_files_Nil)
  then show ?case by blast
next
  case (File e rest)
  let ?w1 = "snd (enter_directory pf download_path parent w)"
  show ?case
  proof (cases "fst (enter_directory pf download_path parent w)")
    case False
    from enter_directory_refused [OF False, of e] obtain pre h where
      pre: "trace ?w1 = trace w @ pre" "h \<in> set pre" "handled download_path parent e h"
      by blast
    from File.IH [of parent ?w1] obtain w' evs hs where
      run: "process_files pf service rest download_path parent ?w1 = Some (None, w')"
      and tr: "trace w' = trace ?w1 @ evs" "subseq hs evs"
        "list_all2 (handled download_path parent) rest hs"
      by blast
    from run False have "process_files pf service (e # rest) download_path parent w
        = Some (None, w')"
      by (simp add: process_files_skip)
    with handled_step [OF pre tr] show ?thesis by blast
  next
    case True
    let ?w2 = "download_file pf service (entry_id e) (entry_name e)
                 (current_download_path download_path parent) ?w1"
    from enter_directory_trace [of pf download_path parent w] obtain pre0 where
      "trace ?w1 = trace w @ pre0" by blast
    moreover from download_file_first [of pf service "entry_id e" "entry_name e"
        "current_download_path download_path parent" ?w1] obtain more where
      "trace ?w2 = trace ?w1 @ GetCall (entry_id e) # more" by blast
    ultimately have pre: "trace ?w2 = trace w @ (pre0 @ GetCall (entry_id e) # more)"
      "GetCall (entry_id e) \<in> set (pre0 @ GetCall (entry_id e) # more)"
      by simp_all
    have h: "handled download_path parent e (GetCall (entry_id e))"
      using File.hyps(1) by (simp add: handled_def)
    from File.IH [of parent ?w2] obtain w' evs hs where
      run: "process_files pf service rest download_path parent ?w2 = Some (None, w')"
      and tr: "trace w' = trace ?w2 @ evs" "subseq hs evs"
        "list_all2 (handled download_path parent) rest hs"
      by blast
    from run True File.hyps(1) have "process_files pf service (e # rest) download_path parent w
        = Some (None, w')"
      by (simp add: process_files_file)
    with handled_step [OF pre h tr] show ?thesis by blast
  qed
next
  case (Folder e sub rest)
  let ?w1 = "snd (enter_directory pf download_path parent w)"
  show ?case
  proof (cases "fst (enter_directory pf download_path parent w)")
    case False
    from enter_directory_refused [OF False, of e] obtain pre h where
      pre: "trace ?w1 = trace w @ pre" "h \<in> set pre" "handled download_path parent e h"
      by blast
    from Folder.IH(2) [of parent ?w1] obtain w' evs hs where
      run: "process_files pf service rest download_path parent ?w1 = Some (None, w')"
      and tr: "trace w' = trace ?w1 @ evs" "subseq hs evs"
        "list_all2 (handled download_path parent) rest hs"
      by blast
    from run False have "process_files pf service (e # rest) download_path parent w
        = Some (None, w')"
      by (simp add: process_files_skip)
    with handled_step [OF pre tr] show ?thesis by blast
  next
    case True
    from enter_directory_trace [of pf download_path parent w] obtain pre0 where
      t1: "trace ?w1 = trace w @ pre0" by blast
    from Folder.hyps(2) obtain w2 where
      lst: "list_files_in_folder service (entry_id e) (processing_folder e ?w1)
              = Some (Inr sub, w2)"
      using list_files_in_folder_listing by blast
    from list_files_in_folder_first [OF lst] obtain more where
      t2: "trace w2 = trace ?w1 @ Log INFO (''Processing folder: '' @ entry_name e
             @ '' (ID: '' @ entry_id e @ '')'') # ListCall (query (entry_id e)) None # more"
      by (auto simp: processing_folder_def)
    have h: "handled download_path parent e (ListCall (query (entry_id e)) None)"
      using Folder.hyps(1) by (simp add: handled_def)
    obtain w3 evs3 where
      step: "process_files pf service (e # rest) download_path parent w
          = process_files pf service rest download_path parent w3"
      and t3: "trace w3 = trace w2 @ evs3"
    proof (cases "sub = []")
      case True
      let ?w3 = "logging INFO (''Folder '' @ entry_name e @ '' is empty.'') w2"
      have "process_files pf service (e # rest) download_path parent w
          = process_files pf service rest download_path parent ?w3"
        using lst True \<open>fst (enter_directory pf download_path parent w)\<close> Folder.hyps(1)
        by (simp add: process_files_folder)
      moreover have "trace ?w3 = trace w2 @ [Log INFO (''Folder '' @ entry_name e @ '' is empty.'')]"
        by simp
      ultimately show ?thesis by (rule that)
    next
      case False
      from process_files_trace [OF Folder.hyps(3),
          of pf download_path "subfolder_name parent (entry_name e)" w2]
      obtain w3 evs3 where
        w3: "process_files pf service sub download_path (subfolder_name parent (entry_name e)) w2
               = Some (None, w3)"
        and t3: "trace w3 = trace w2 @ evs3"
        by blast
      have "process_files pf service (e # rest) download_path parent w
          = process_files pf service rest download_path parent w3"
        using lst w3 False True Folder.hyps(1)
        by (simp add: process_files_folder)
      then show ?thesis using t3 by (rule that)
    qed
    let ?pre = "pre0 @ Log INFO (''Processing folder: '' @ entry_name e
             @ '' (ID: '' @ entry_id e @ '')'') # ListCall (query (entry_id e)) None # more @ evs3"
    from t1 t2 t3 have pre: "trace w3 = trace w @ ?pre"
      "ListCall (query (entry_id e)) None \<in> set ?pre"
      by simp_all
    from Folder.IH(2) [of parent w3] obtain w' evs hs where
      run: "process_files pf service rest download_path parent w3 = Some (None, w')"
      and tr: "trace w' = trace w3 @ evs" "subseq hs evs"
        "list_all2 (handled download_path parent) rest hs"
      by blast
    from run step have "process_files pf service (e # rest) download_path parent w
        = Some (None, w')"
      by simp
    with handled_step [OF pre h tr] show ?thesis by blast
  qed
qed

text \<open>
  C6. For every entry list (the service and the machine are arbitrary, so any download
  and any directory creation may fail, and the listing of any subfolder may fail with
  \<^verbatim>\<open>HttpError\<close> and come back empty), the loop returns, and its body has run for every
  entry of the list, in the order of the list: the trace gained by the call holds, one
  after the other, an event for each entry, which is the listing request for the entry if
  it is a folder and the metadata request that begins its download if it is a file (or,
  below the top level, the error record of a directory that could not be created for it).
  A call on a list \<open>files @ ys\<close> goes through \<open>files\<close> in this way and then processes
  the siblings \<open>ys\<close> exactly as a call on \<open>ys\<close> alone does from the state reached. The
  assumption is that the remote tree below the list can be walked: it is finite, and a
  listing in it that fails comes back empty.
\<close>

theorem process_files_continues:
  assumes "finite_tree service files"
  shows "\<exists>w' evs hs. process_files pf service files download_path parent w = Some (None, w')
     \<and> trace w' = trace w @ evs \<and> subseq hs evs
     \<and> list_all2 (handled download_path parent) files hs
     \<and> (\<forall>ys. process_files pf service (files @ ys) download_path parent w
               = process_files pf service ys download_path parent w')"
proof -
  from process_files_handles [OF assms, of pf download_path parent w] obtain w' evs hs where
    run: "process_files pf service files download_path parent w = Some (None, w')"
    and tr: "trace w' = trace w @ evs" "subseq hs evs"
      "list_all2 (handled download_path parent) files hs"
    by blast
  from run have "\<forall>ys. process_files pf service (files @ ys) download_path parent w
               = process_files pf service ys download_path parent w'"
    by (simp add: process_files_append)
  with run tr show ?thesis by blast
qed

theorem process_files_continues_witness:
  "finite_tree faulty_service [entry_bad, entry_locked, entry_sub, entry_a]
   \<and> (\<exists>w' evs. process_files denying_platform faulty_service
                   [entry_bad, entry_locked, entry_sub, entry_a] ''dest'' [] demo_world
                 = Some (None, w')
          \<and> trace w' = trace demo_world @ evs
          \<and> subseq [GetCall ''id-bad'', ListCall (query ''id-locked'') None,
                     ListCall (query ''id-sub'') None, GetCall ''id-a''] evs
          \<and> fs_files w' ''dest/a.txt'' = Some ''data:id-a'')"
proof -
  from process_files_continues [OF faulty_finite, of denying_platform "''dest''" "[]" demo_world]
  obtain w' evs hs where
    run: "process_files denying_platform faulty_service
            [entry_bad, entry_locked, entry_sub, entry_a] ''dest'' [] demo_world = Some (None, w')"
    and tr: "trace w' = trace demo_world @ evs" "subseq hs evs"
    and hs: "list_all2 (handled ''dest'' []) [entry_bad, entry_locked, entry_sub, entry_a] hs"
    by blast
  from hs have "hs = [GetCall ''id-bad'', ListCall (query ''id-locked'') None,
                     ListCall (query ''id-sub'') None, GetCall ''id-a'']"
    by (simp add: list_all2_Cons1 handled_def entry_bad_def entry_locked_def entry_sub_def
        entry_a_def folder_mime_def)
  moreover from run faulty_walk have "fs_files w' ''dest/a.txt'' = Some ''data:id-a''"
    by simp
  ultimately show ?thesis using run tr faulty_finite by blast
qed

section \<open>C2: the tree \<^verbatim>\<open>root/{a.txt, sub/{b.txt}}\<close>\<close>

lemma path_join_suffix: "\<not> prefix ''/'' n \<Longrightarrow> \<exists>pre. path_join d n = pre @ n"
proof -
  assume "\<not> prefix ''/'' n"
  then have "path_join d n = d @ n \<or> path_join d n = (d @ ''/'') @ n"
    by (simp add: path_join_def)
  then show ?thesis by blast
qed

lemma path_join_a_b: "path_join x ''a.txt'' \<noteq> path_join y ''b.txt''"
proof -
  obtain p where p: "path_join x ''a.txt'' = p @ ''a.txt''"
    using path_join_suffix [of "''a.txt''" x] by auto
  obtain q where q: "path_join y ''b.txt'' = q @ ''b.txt''"
    using path_join_suffix [of "''b.txt''" y] by auto
  have "p @ ''a.txt'' \<noteq> q @ ''b.txt''"
  proof
    assume "p @ ''a.txt'' = q @ ''b.txt''"
    then show False by simp
  qed
  with p q show ?thesis by simp
qed

lemma path_join_sub_a: "path_join x ''sub'' \<noteq> path_join y ''a.txt''"
proof -
  obtain p where p: "path_join x ''sub'' = p @ ''sub''"
    using path_join_suffix [of "''sub''" x] by auto
  obtain q where q: "path_join y ''a.txt'' = q @ ''a.txt''"
    using path_join_suffix [of "''a.txt''" y] by auto
  have "last (p @ ''sub'') \<noteq> last (q @ ''a.txt'')" by simp
  then have "p @ ''sub'' \<noteq> q @ ''a.txt''" by metis
  with p q show ?thesis by simp
qed

lemma enter_directory_root: "enter_directory pf dp [] w = (True, w)"
  by (simp add: enter_directory_def)

lemma create_directory_ok:
  assumes "makedirs_error pf w p = None"
  shows "fst (create_directory pf p w)"
    and "p \<in> fs_dirs (snd (create_directory pf p w))"
    and "fs_files (snd (create_directory pf p w)) = fs_files w"
    and "trace (snd (create_directory pf p w))
           = trace w @ [Makedirs p, Log INFO (''Created directory: '' @ p)]"
  using assms by (simp_all add: create_directory_def Let_def)

lemma download_file_count:
  "count_list (trace (download_file pf service i n dp w)) (Makedirs p)
     = count_list (trace w) (Makedirs p)"
  by (rule extends_count [OF download_file_extends]) simp

lemma list_files_in_folder_count:
  assumes "list_files_in_folder service folder_id w = Some (found, w')"
  shows "count_list (trace w') (Makedirs p) = count_list (trace w) (Makedirs p)"
  by (rule extends_count [OF list_files_in_folder_extends [OF assms]]) simp

text \<open>The walk through a subfolder \<^verbatim>\<open>sub\<close> that holds the one file \<^verbatim>\<open>b.txt\<close>.\<close>

lemma process_files_sub:
  assumes b: "entry_name b = ''b.txt''" "entry_mimeType b \<noteq> folder_mime"
    and meta: "files_get service (entry_id b) = Inr mb" "mb \<noteq> folder_mime"
    and media: "files_get_media service (entry_id b) = \<lparr>chunks = cb, failure = None\<rparr>"
    and os: "\<forall>w p. makedirs_error pf w p = None" "\<forall>w p. open_error pf w p = None"
    and fresh: "\<not> path_exists w (path_join localRoot ''sub'')"
  shows "\<exists>w'. process_files pf service [b] localRoot ''sub'' w = Some (None, w')
     \<and> fs_files w' = (fs_files w)(path_join (path_join localRoot ''sub'') ''b.txt'' \<mapsto> concat cb)
     \<and> count_list (trace w') (Makedirs (path_join localRoot ''sub''))
         = Suc (count_list (trace w) (Makedirs (path_join localRoot ''sub'')))"
proof -
  let ?dir = "path_join localRoot ''sub''"
  let ?w1 = "snd (create_directory pf ?dir w)"
  let ?w2 = "download_file pf service (entry_id b) ''b.txt'' ?dir ?w1"
  from os(1) have mk: "makedirs_error pf w ?dir = None" by blast
  have ent: "enter_directory pf localRoot ''sub'' w = create_directory pf ?dir w"
    using fresh by (simp add: enter_directory_def current_download_path_def)
  have "process_files pf service [b] localRoot ''sub'' w = Some (None, ?w2)"
    using create_directory_ok(1) [OF mk] b
    by (simp add: process_files_file ent process_files_Nil current_download_path_def)
  moreover have "fs_files ?w2 = (fs_files w)(path_join ?dir ''b.txt'' \<mapsto> concat cb)"
    using download_file_ok [OF meta os(2) media] create_directory_ok(3) [OF mk] by simp
  moreover have "count_list (trace ?w2) (Makedirs ?dir) = Suc (count_list (trace w) (Makedirs ?dir))"
    using create_directory_ok(4) [OF mk] by (simp add: download_file_count)
  ultimately show ?thesis by blast
qed

text \<open>
  C2. For every remote tree with a root that holds the file \<^verbatim>\<open>a.txt\<close> and the subfolder
  \<^verbatim>\<open>sub\<close> (in either order), where \<^verbatim>\<open>sub\<close> holds the file \<^verbatim>\<open>b.txt\<close>, the walk
  started with an empty \<^verbatim>\<open>parent_folder_name\<close> returns, has written the content of
  \<^verbatim>\<open>a.txt\<close> to \<open>localRoot/a.txt\<close> and that of \<^verbatim>\<open>b.txt\<close> to \<open>localRoot/sub/b.txt\<close>,
  and has called \<^verbatim>\<open>os.makedirs\<close> for \<open>localRoot/sub\<close> exactly once. The tree is one that
  can be mirrored: no request and no local operation fails, the metadata of the two files
  says that they are no folders, and \<open>localRoot/sub\<close> does not exist beforehand.
\<close>

theorem process_files_mirrors_tree:
  assumes a: "entry_name a = ''a.txt''" "entry_mimeType a \<noteq> folder_mime"
    and sub: "entry_name sub = ''sub''" "entry_mimeType sub = folder_mime"
    and b: "entry_name b = ''b.txt''" "entry_mimeType b \<noteq> folder_mime"
    and root: "root = [a, sub] \<or> root = [sub, a]"
    and children: "listing service (entry_id sub) = Some (Inr [b])"
    and meta_a: "files_get service (entry_id a) = Inr ma" "ma \<noteq> folder_mime"
    and meta_b: "files_get service (entry_id b) = Inr mb" "mb \<noteq> folder_mime"
    and media_a: "files_get_media service (entry_id a) = \<lparr>chunks = ca, failure = None\<rparr>"
    and media_b: "files_get_media service (entry_id b) = \<lparr>chunks = cb, failure = None\<rparr>"
    and os: "\<forall>w p. makedirs_error pf w p = None" "\<forall>w p. open_error pf w p = None"
    and fresh: "\<not> path_exists w (path_join localRoot ''sub'')"
  shows "\<exists>w'. process_files pf service root localRoot [] w = Some (None, w')
     \<and> fs_files w' (path_join localRoot ''a.txt'') = Some (concat ca)
     \<and> fs_files w' (path_join (path_join localRoot ''sub'') ''b.txt'') = Some (concat cb)
     \<and> count_list (trace w') (Makedirs (path_join localRoot ''sub''))
         = Suc (count_list (trace w) (Makedirs (path_join localRoot ''sub'')))"
proof -
  let ?dir = "path_join localRoot ''sub''"
  let ?pa = "path_join localRoot ''a.txt''"
  let ?pb = "path_join ?dir ''b.txt''"
  have file_step: "process_files pf service (a # rest) localRoot [] v
      = process_files pf service rest localRoot []
          (download_file pf service (entry_id a) ''a.txt'' localRoot v)" for rest v
    using a by (simp add: process_files_file enter_directory_root current_download_path_def)
  have folder_step: "\<exists>v2 v3. fs_dirs v2 = fs_dirs v \<and> fs_files v2 = fs_files v
      \<and> count_list (trace v2) (Makedirs ?dir) = count_list (trace v) (Makedirs ?dir)
      \<and> process_files pf service [b] localRoot ''sub'' v2 = Some (None, v3)
      \<and> process_files pf service (sub # rest) localRoot [] v
          = process_files pf service rest localRoot [] v3" for rest v
  proof -
    from children obtain v2 where
      lst: "list_files_in_folder service (entry_id sub) (processing_folder sub v)
              = Some (Inr [b], v2)"
      using list_files_in_folder_listing by blast
    have same: "fs_dirs v2 = fs_dirs v \<and> fs_files v2 = fs_files v"
      using list_files_in_folder_frame [OF lst] by (simp add: processing_folder_def)
    have cnt: "count_list (trace v2) (Makedirs ?dir) = count_list (trace v) (Makedirs ?dir)"
      using list_files_in_folder_count [OF lst, of ?dir] by (simp add: processing_folder_def)
    have ft: "finite_tree service [b]"
      by (intro finite_tree.File finite_tree.Nil b(2))
    from process_files_returns [OF ft] obtain v3 where
      v3: "process_files pf service [b] localRoot ''sub'' v2 = Some (None, v3)" by blast
    have "process_files pf service (sub # rest) localRoot [] v
        = process_files pf service rest localRoot [] v3"
      using sub lst v3
      by (simp add: process_files_folder enter_directory_root subfolder_name_def)
    with same cnt v3 show ?thesis by blast
  qed
  from root show ?thesis
  proof
    assume r: "root = [a, sub]"
    let ?w1 = "download_file pf service (entry_id a) ''a.txt'' localRoot w"
    have f1: "fs_files ?w1 = (fs_files w)(?pa \<mapsto> concat ca)"
      using download_file_ok [OF meta_a os(2) media_a] .
    from folder_step [where rest = "[]" and v = ?w1] obtain v2 v3 where
      v2: "fs_dirs v2 = fs_dirs ?w1" "fs_files v2 = fs_files ?w1"
        "count_list (trace v2) (Makedirs ?dir) = count_list (trace ?w1) (Makedirs ?dir)"
      and v3: "process_files pf service [b] localRoot ''sub'' v2 = Some (None, v3)"
      and step: "process_files pf service [sub] localRoot [] ?w1
          = process_files pf service [] localRoot [] v3"
      by blast
    have "\<not> path_exists v2 ?dir"
      using fresh v2(1,2) f1 path_join_sub_a [of localRoot localRoot]
      by (simp add: path_exists_def download_file_dirs)
    from process_files_sub [OF b meta_b media_b os this] v3
    have f3: "fs_files v3 = (fs_files v2)(?pb \<mapsto> concat cb)"
      and c3: "count_list (trace v3) (Makedirs ?dir) = Suc (count_list (trace v2) (Makedirs ?dir))"
      by auto
    have "process_files pf service root localRoot [] w = Some (None, v3)"
      using r file_step [where rest = "[sub]" and v = w] step by (simp add: process_files_Nil)
    moreover have "fs_files v3 ?pa = Some (concat ca)"
      using f3 v2(2) f1 path_join_a_b [of localRoot ?dir] by simp
    moreover have "fs_files v3 ?pb = Some (concat cb)"
      using f3 by simp
    moreover have "count_list (trace v3) (Makedirs ?dir) = Suc (count_list (trace w) (Makedirs ?dir))"
      using c3 v2(3) by (simp add: download_file_count)
    ultimately show ?thesis by blast
  next
    assume r: "root = [sub, a]"
    from folder_step [where rest = "[a]" and v = w] obtain v2 v3 where
      v2: "fs_dirs v2 = fs_dirs w" "fs_files v2 = fs_files w"
        "count_list (trace v2) (Makedirs ?dir) = count_list (trace w) (Makedirs ?dir)"
      and v3: "process_files pf service [b] localRoot ''sub'' v2 = Some (None, v3)"
      and step: "process_files pf service [sub, a] localRoot [] w
          = process_files pf service [a] localRoot [] v3"
      by blast
    have "\<not> path_exists v2 ?dir"
      using fresh v2(1,2) by (simp add: path_exists_def)
    from process_files_sub [OF b meta_b media_b os this] v3
    have f3: "fs_files v3 = (fs_files v2)(?pb \<mapsto> concat cb)"
      and c3: "count_list (trace v3) (Makedirs ?dir) = Suc (count_list (trace v2) (Makedirs ?dir))"
      by auto
    let ?w4 = "download_file pf service (entry_id a) ''a.txt'' localRoot v3"
    have f4: "fs_files ?w4 = (fs_files v3)(?pa \<mapsto> concat ca)"
      using download_file_ok [OF meta_a os(2) media_a] .
    have "process_files pf service root localRoot [] w = Some (None, ?w4)"
      using r step file_step [where rest = "[]" and v = v3] by (simp add: process_files_Nil)
    moreover have "fs_files ?w4 ?pa = Some (concat ca)"
      using f4 by simp
    moreover have "fs_files ?w4 ?pb = Some (concat cb)"
      using f4 f3 path_join_a_b [of localRoot ?dir] by simp
    moreover have "count_list (trace ?w4) (Makedirs ?dir) = Suc (count_list (trace w) (Makedirs ?dir))"
      using c3 v2(3) by (simp add: download_file_count)
    ultimately show ?thesis by blast
  qed
qed

theorem process_files_mirrors_tree_witness:
  "listing tree_service ''id-sub'' = Some (Inr [entry_b])
   \<and> \<not> path_exists demo_world ''dest/sub''
   \<and> (\<exists>w'. process_files (quiet_platform tree_service) tree_service [entry_a, entry_sub]
               ''dest'' [] demo_world = Some (None, w')
          \<and> fs_files w' ''dest/a.txt'' = Some ''data:id-a''
          \<and> fs_files w' ''dest/sub/b.txt'' = Some ''data:id-b''
          \<and> count_list (trace w') (Makedirs ''dest/sub'') = 1)"
proof -
  have l: "listing tree_service (entry_id entry_sub) = Some (Inr [entry_b])"
    by (simp add: listing_def list_pages.simps tree_service_def last_page_def query_def Let_def
        entry_sub_def)
  have fresh: "\<not> path_exists demo_world (path_join ''dest'' ''sub'')"
    by (simp add: path_exists_def demo_world_def path_join_def)
  have m: "files_get tree_service (entry_id entry_a) = Inr ''text/plain''"
    "files_get tree_service (entry_id entry_b) = Inr ''text/plain''"
    "''text/plain'' \<noteq> folder_mime"
    "files_get_media tree_service (entry_id entry_a) = \<lparr>chunks = [''data:'', ''id-a''], failure = None\<rparr>"
    "files_get_media tree_service (entry_id entry_b) = \<lparr>chunks = [''data:'', ''id-b''], failure = None\<rparr>"
    by (simp_all add: tree_service_def folder_mime_def entry_a_def entry_b_def)
  have e: "entry_name entry_a = ''a.txt''" "entry_mimeType entry_a \<noteq> folder_mime"
    "entry_name entry_sub = ''sub''" "entry_mimeType entry_sub = folder_mime"
    "entry_name entry_b = ''b.txt''" "entry_mimeType entry_b \<noteq> folder_mime"
    by (simp_all add: entry_a_def entry_b_def entry_sub_def folder_mime_def)
  have os: "\<forall>w p. makedirs_error (quiet_platform tree_service) w p = None"
    "\<forall>w p. open_error (quiet_platform tree_service) w p = None"
    by (simp_all add: quiet_platform_def)
  from process_files_mirrors_tree [OF e _ l m(1) m(3) m(2) m(3) m(4) m(5) os fresh,
      of "[entry_a, entry_sub]"] l fresh
  show ?thesis
    by (simp add: path_join_def demo_world_def entry_sub_def)
qed

section \<open>C10: nothing in the trash is listed, walked into or downloaded\<close>

lemma list_files_in_folder_filtered:
  assumes "list_files_in_folder service folder_id w = Some (r, w')"
  shows "suffix ''trashed=false'' (query folder_id)
     \<and> (\<forall>q tok. ListCall q tok \<in> set (trace w')
           \<longrightarrow> ListCall q tok \<in> set (trace w) \<or> q = query folder_id)
     \<and> (honours_filter service trashed
          \<longrightarrow> (\<forall>found. r = Inr found \<longrightarrow> (\<forall>e \<in> set found. \<not> trashed e)))"
proof -
  from list_files_in_folder_extends [OF assms]
  have "\<forall>q tok. ListCall q tok \<in> set (trace w')
           \<longrightarrow> ListCall q tok \<in> set (trace w) \<or> q = query folder_id"
    by (auto simp: extends_def)
  moreover have "honours_filter service trashed
      \<longrightarrow> (\<forall>found. r = Inr found \<longrightarrow> (\<forall>e \<in> set found. \<not> trashed e))"
  proof (intro impI allI)
    fix found
    assume h: "honours_filter service trashed" and r: "r = Inr found"
    from listing_list_files_in_folder [OF assms] r
    have "listing service folder_id = Some (Inr found)" by simp
    from listing_untrashed [OF this h] show "\<forall>e \<in> set found. \<not> trashed e" .
  qed
  ultimately show ?thesis using suffix_query by blast
qed

text \<open>
  C10. Every listing request that \<^verbatim>\<open>list_files_in_folder\<close> makes, whatever the outcome
  \<open>r\<close> of the call, carries the query of the folder, which ends with
  \<^verbatim>\<open>trashed=false\<close>; so, for a service that honours the filter, no entry in the trash
  is among the entries returned. A walk that starts from entries that are not in the
  trash therefore never makes a request (listing, metadata or download) for an entry in
  the trash.
\<close>

theorem trashed_entries_never_reached:
  "(list_files_in_folder service folder_id w = Some (r, w') \<longrightarrow>
       suffix ''trashed=false'' (query folder_id)
     \<and> (\<forall>q tok. ListCall q tok \<in> set (trace w')
           \<longrightarrow> ListCall q tok \<in> set (trace w) \<or> q = query folder_id)
     \<and> (honours_filter service trashed
          \<longrightarrow> (\<forall>found. r = Inr found \<longrightarrow> (\<forall>e \<in> set found. \<not> trashed e))))
   \<and> (honours_filter service trashed \<and> finite_tree service files
         \<and> (\<forall>e \<in> set files. \<not> trashed e) \<longrightarrow>
       (\<exists>w''. process_files pf service files download_path parent w = Some (None, w'')
           \<and> extends (untrashed_request trashed) w w''))"
proof (rule conjI)
  show "list_files_in_folder service folder_id w = Some (r, w') \<longrightarrow>
       suffix ''trashed=false'' (query folder_id)
     \<and> (\<forall>q tok. ListCall q tok \<in> set (trace w')
           \<longrightarrow> ListCall q tok \<in> set (trace w) \<or> q = query folder_id)
     \<and> (honours_filter service trashed
          \<longrightarrow> (\<forall>found. r = Inr found \<longrightarrow> (\<forall>e \<in> set found. \<not> trashed e)))"
    by (rule impI) (rule list_files_in_folder_filtered)
  show "honours_filter service trashed \<and> finite_tree service files
         \<and> (\<forall>e \<in> set files. \<not> trashed e) \<longrightarrow>
       (\<exists>w''. process_files pf service files download_path parent w = Some (None, w'')
           \<and> extends (untrashed_request trashed) w w'')"
  proof (rule impI)
    assume "honours_filter service trashed \<and> finite_tree service files
         \<and> (\<forall>e \<in> set files. \<not> trashed e)"
    then have "finite_tree service files" and "honours_filter service trashed"
      and "\<forall>e \<in> set files. \<not> trashed e"
      by simp_all
    then show "\<exists>w''. process_files pf service files download_path parent w = Some (None, w'')
           \<and> extends (untrashed_request trashed) w w''"
      by (rule process_files_untrashed)
  qed
qed

theorem trashed_entries_never_reached_witness:
  "honours_filter bin_service (\<lambda>e. e = entry_z)
   \<and> map_option fst (list_files_in_folder bin_service ''id-root'' empty_world)
       = Some (Inr [entry_a])
   \<and> (\<exists>w''. process_files (quiet_platform bin_service) bin_service [entry_a] ''dest'' []
                empty_world = Some (None, w'')
           \<and> extends (untrashed_request (\<lambda>e. e = entry_z)) empty_world w'')"
proof -
  have az: "entry_a \<noteq> entry_z" by (simp add: entry_a_def entry_z_def)
  have h: "honours_filter bin_service (\<lambda>e. e = entry_z)"
    using az by (auto simp: honours_filter_def bin_service_def last_page_def page_items_def)
  have l: "list_files_in_folder bin_service ''id-root'' empty_world
      = Some (Inr [entry_a], empty_world\<lparr>trace := [ListCall (query ''id-root'') None]\<rparr>)"
    using suffix_query [of "''id-root''"]
    by (simp add: list_files_in_folder_def list_pages.simps bin_service_def last_page_def
        Let_def empty_world_def)
  have ft: "finite_tree bin_service [entry_a]"
    by (intro finite_tree.File finite_tree.Nil) (simp add: entry_a_def folder_mime_def)
  from trashed_entries_never_reached [of bin_service "''id-root''" empty_world "Inr [entry_a]"
      "empty_world\<lparr>trace := [ListCall (query ''id-root'') None]\<rparr>" "\<lambda>e. e = entry_z"
      "[entry_a]" "quiet_platform bin_service" "''dest''" "[]"]
    h l ft az
  show ?thesis by simp
qed

end
